theory Spec2Isabelle
  imports Main "HOL-Library.Sublist"
begin

section \<open>Data model\<close>

text \<open>
  A worker is the dictionary the HR directory returns. The synchronisation script reads
  two of its keys itself: \<^verbatim>\<open>associateOID\<close> and \<^verbatim>\<open>workerID\<close> (a nested dictionary with
  the key \<^verbatim>\<open>idValue\<close>). The remaining fields are the ones the specification's data model
  lists: a manager reference (a primary and a secondary field), a status flag, name parts,
  a display name and contact e-mails tagged by type. Python's \<^verbatim>\<open>dict.get\<close> returns
  \<^verbatim>\<open>None\<close> for a missing key, so an optional key is an \<open>option\<close>. Strings are lists of
  characters; the model is exact for ASCII text.
\<close>

record worker_id_dict =
  idValue :: "string option"

datatype status = Active | Inactive

record worker =
  associateOID :: "string option"
  workerID :: "worker_id_dict option"
  manager_primary :: "string option"
  manager_secondary :: "string option"
  worker_status :: status
  given_name :: string
  family_name :: string
  display_name :: string
  contact_emails :: "(string \<times> string) list"

text \<open>
  Truthiness of an optional string, as Python's \<^verbatim>\<open>if x:\<close> and \<^verbatim>\<open>x or y\<close> test it:
  \<^verbatim>\<open>None\<close> and the empty string are false, every other string is true.
\<close>

fun truthy :: "string option \<Rightarrow> bool" where
  "truthy None = False"
| "truthy (Some s) = (s \<noteq> [])"

text \<open>\<^verbatim>\<open>x or y\<close> on optional strings.\<close>

definition py_or :: "string option \<Rightarrow> string option \<Rightarrow> string option" where
  "py_or x y = (if truthy x then x else y)"

text \<open>
  \<^verbatim>\<open>w.get("associateOID") or (w.get("workerID") or {}).get("idValue")\<close>, the expression
  that both \<^verbatim>\<open>collect_reports\<close> and \<^verbatim>\<open>get_active_adp_workers\<close> use for a worker's own
  identifier.
\<close>

definition worker_ident :: "worker \<Rightarrow> string option" where
  "worker_ident w =
     py_or (associateOID w) (case workerID w of None \<Rightarrow> None | Some d \<Rightarrow> idValue d)"

text \<open>
  The exceptions that occur: what a client operation raises, the two that \<^verbatim>\<open>int\<close> raises,
  and the one that the interpreter raises when a call would exceed its recursion limit.
\<close>

datatype exn = ClientError string | ValueError string | TypeError string | RecursionError

section \<open>Org Hierarchy Builder\<close>

type_synonym manager_map = "string \<rightharpoonup> worker list"
type_synonym worker_map = "string option \<rightharpoonup> worker"

text \<open>
  Modelled from the spec: the manager identifier that \<^verbatim>\<open>build_org_hierarchy\<close>
  (module \<^verbatim>\<open>get_adp_info\<close>) extracts from a worker. The spec gives a fallback chain: a primary
  manager-id field, else a secondary identifier field.
\<close>

definition manager_ref :: "worker \<Rightarrow> string option" where
  "manager_ref w =
     (case manager_primary w of Some m \<Rightarrow> Some m | None \<Rightarrow> manager_secondary w)"

text \<open>\<^verbatim>\<open>d.get(k, [])\<close> on a dictionary of lists.\<close>

definition get_default :: "manager_map \<Rightarrow> string \<Rightarrow> worker list" where
  "get_default d k = (case d k of None \<Rightarrow> [] | Some l \<Rightarrow> l)"

text \<open>
  Modelled from the spec: when the manager identifier \<open>m\<close> of the worker \<open>w\<close> resolves: it
  is the identifier of another worker of the list.
\<close>

definition resolves :: "worker list \<Rightarrow> worker \<Rightarrow> string \<Rightarrow> bool" where
  "resolves all_workers w m \<longleftrightarrow> list_ex (\<lambda>v. v \<noteq> w \<and> worker_ident v = Some m) all_workers"

text \<open>
  Modelled from the spec: \<^verbatim>\<open>build_org_hierarchy\<close> of module \<^verbatim>\<open>get_adp_info\<close>. For each
  worker in input order: if it has a manager identifier and that identifier resolves, the
  worker is appended to that manager's direct-report list; a worker whose manager
  identifier is absent or resolves to no other worker of the list is in no list (sections 3,
  4.1 and 8 of the specification). The worker is always registered in the id map.
\<close>

fun build_loop ::
    "worker list \<Rightarrow> worker list \<Rightarrow> manager_map \<times> worker_map \<Rightarrow> manager_map \<times> worker_map" where
  "build_loop all_workers [] acc = acc"
| "build_loop all_workers (w # ws) (mm, wm) =
     build_loop all_workers ws
       ((case manager_ref w of
           None \<Rightarrow> mm
         | Some m \<Rightarrow> if resolves all_workers w m then mm(m \<mapsto> get_default mm m @ [w]) else mm),
        wm(worker_ident w \<mapsto> w))"

definition build_org_hierarchy :: "worker list \<Rightarrow> manager_map \<times> worker_map" where
  "build_org_hierarchy workers = build_loop workers workers (Map.empty, Map.empty)"

section \<open>Subtree Collector\<close>

text \<open>
  \<^verbatim>\<open>collect_reports\<close> calls itself inside its \<^verbatim>\<open>for\<close> loop and has no guard against a
  cycle. Each nested call takes one frame of the interpreter's stack, and the interpreter
  raises \<^verbatim>\<open>RecursionError\<close> for the call that would exceed its recursion limit; nothing in
  the script catches it. So a call of \<^verbatim>\<open>collect_reports\<close> always ends: it returns a list or
  it raises. The number of nested calls of \<^verbatim>\<open>collect_reports\<close> that the interpreter still
  allows is a parameter (the recursion limit, 1000 by default, less the frames in use when
  the collector is called).

  \<open>collect_loop\<close> is the \<^verbatim>\<open>for\<close> loop of one call, with the number of nested calls allowed
  below it, the list \<^verbatim>\<open>reports\<close> built so far and the direct reports still to visit; the
  recursive call \<^verbatim>\<open>collect_reports(report_id)\<close> is a fresh loop one level down, started
  with an empty list, over \<^verbatim>\<open>manager_map.get(report_id, [])\<close>.
\<close>

fun collect_loop :: "nat \<Rightarrow> manager_map \<Rightarrow> worker list \<Rightarrow> worker list \<Rightarrow> exn + worker list" where
  "collect_loop depth manager_map reports [] = Inr reports"
| "collect_loop depth manager_map reports (report # rest) =
     (let reports1 = reports @ [report];
          report_id = worker_ident report
      in if truthy report_id
         then (case depth of
                 0 \<Rightarrow> Inl RecursionError
               | Suc d \<Rightarrow>
                   (case collect_loop d manager_map [] (get_default manager_map (the report_id)) of
                      Inl e \<Rightarrow> Inl e
                    | Inr sub \<Rightarrow> collect_loop depth manager_map (reports1 @ sub) rest))
         else collect_loop depth manager_map reports1 rest)"

definition collect_reports :: "nat \<Rightarrow> manager_map \<Rightarrow> string \<Rightarrow> exn + worker list" where
  "collect_reports limit manager_map mgr_id =
     (case limit of
        0 \<Rightarrow> Inl RecursionError
      | Suc d \<Rightarrow> collect_loop d manager_map [] (get_default manager_map mgr_id))"

definition get_all_reports_under_manager ::
    "nat \<Rightarrow> worker list \<Rightarrow> string \<Rightarrow> exn + worker list" where
  "get_all_reports_under_manager limit workers manager_id =
     (let (manager_map, worker_map) = build_org_hierarchy workers
      in collect_reports limit manager_map manager_id)"

section \<open>Filtering pipeline\<close>

text \<open>
  Modelled from the spec: \<^verbatim>\<open>is_active_worker\<close> of module \<^verbatim>\<open>get_adp_info\<close>: a worker is
  active when its status flag says so.
\<close>

definition is_active_worker :: "worker \<Rightarrow> bool" where
  "is_active_worker w \<longleftrightarrow> worker_status w = Active"

text \<open>
  \<^verbatim>\<open>sys.exit(n)\<close> ends the run with exit code \<open>n\<close>, and an exception that nothing
  catches leaves the function; a function in which either can happen returns an outcome.
\<close>

datatype 'a outcome = SysExit int | Raised exn | Returned 'a

text \<open>
  \<^verbatim>\<open>get_active_adp_workers\<close>, on the worker list that \<^verbatim>\<open>get_workers()\<close> fetched. The
  function \<^verbatim>\<open>find_worker_by_identifier\<close> (module \<^verbatim>\<open>get_adp_info\<close>) is not part of the
  synchronisation script and the specification leaves its matching strategy open, so it is
  a parameter: any function from the worker list and an identifier to a worker or \<^verbatim>\<open>None\<close>.
  \<open>limit\<close> is the number of nested calls that the interpreter allows the collector. Console
  output of this function is not modelled.
\<close>

definition get_active_adp_workers ::
    "(worker list \<Rightarrow> string \<Rightarrow> worker option) \<Rightarrow> nat \<Rightarrow> worker list \<Rightarrow> string option
       \<Rightarrow> worker list outcome" where
  "get_active_adp_workers find_worker_by_identifier limit workers manager_identifier =
     (let active_workers = filter is_active_worker workers
      in if truthy manager_identifier
         then (case find_worker_by_identifier workers (the manager_identifier) of
                 None \<Rightarrow> SysExit 1
               | Some manager_worker \<Rightarrow>
                   (let manager_id = worker_ident manager_worker
                    in if \<not> truthy manager_id then SysExit 1
                       else (case get_all_reports_under_manager limit workers (the manager_id) of
                               Inl e \<Rightarrow> Raised e
                             | Inr manager_reports \<Rightarrow>
                                 Returned
                                   (filter (\<lambda>w. w \<in> set manager_reports) active_workers))))
         else Returned active_workers)"

section \<open>Account e-mails\<close>

text \<open>
  \<^verbatim>\<open>str.strip()\<close> and \<^verbatim>\<open>str.lower()\<close> on ASCII text. The ASCII characters that Python
  counts as whitespace are the code points 9 to 13, 28 to 31 and 32.
\<close>

definition is_space :: "char \<Rightarrow> bool" where
  "is_space c \<longleftrightarrow> (of_char c :: nat) \<in> {9, 10, 11, 12, 13, 28, 29, 30, 31, 32}"

definition py_strip :: "string \<Rightarrow> string" where
  "py_strip s = rev (dropWhile is_space (rev (dropWhile is_space s)))"

definition lower_char :: "char \<Rightarrow> char" where
  "lower_char c =
     (if 65 \<le> (of_char c :: nat) \<and> (of_char c :: nat) \<le> 90
      then char_of (of_char c + 32 :: nat) else c)"

definition py_lower :: "string \<Rightarrow> string" where
  "py_lower s = map lower_char s"

text \<open>A user of the learning system, as \<^verbatim>\<open>client.get_users()\<close> returns it; only its
  \<^verbatim>\<open>email\<close> key is read.\<close>

record lms_user =
  user_email :: "string option"

text \<open>
  \<^verbatim>\<open>get_all_talentlms_emails\<close>, on the user list that \<^verbatim>\<open>client.get_users()\<close> returned:
  the loop adds the stripped, lower-cased e-mail of every user whose e-mail is truthy.
\<close>

definition add_user_email :: "lms_user \<Rightarrow> string set \<Rightarrow> string set" where
  "add_user_email user emails =
     (let email = user_email user
      in if truthy email then insert (py_lower (py_strip (the email))) emails else emails)"

definition get_all_talentlms_emails :: "lms_user list \<Rightarrow> string set" where
  "get_all_talentlms_emails users = fold add_user_email users {}"

section \<open>Reconciler\<close>

text \<open>
  Values of a JSON response, as far as the script looks at them: \<^verbatim>\<open>None\<close>, an integer or a
  string. A response dictionary is an association list.
\<close>

datatype py_value = PyNone | PyInt int | PyStr string

fun truthy_value :: "py_value \<Rightarrow> bool" where
  "truthy_value PyNone = False"
| "truthy_value (PyInt n) = (n \<noteq> 0)"
| "truthy_value (PyStr s) = (s \<noteq> [])"

definition dict_get :: "(string \<times> py_value) list \<Rightarrow> string \<Rightarrow> py_value" where
  "dict_get d k = (case map_of d k of None \<Rightarrow> PyNone | Some v \<Rightarrow> v)"

text \<open>
  \<^verbatim>\<open>int(x)\<close>: an integer is returned as it is. In a string, \<^verbatim>\<open>int\<close> skips blanks at both
  ends, where for ASCII text it counts the code points 9 to 13 and 32 as blanks (not 28 to
  31, which \<^verbatim>\<open>str.strip\<close> removes); what is left must be an optional sign followed by
  decimal digits, where single underscores may stand between digits; anything else raises.
  The interpreter's limit on the number of digits of such a string is not modelled.
\<close>

definition is_int_blank :: "char \<Rightarrow> bool" where
  "is_int_blank c \<longleftrightarrow> (of_char c :: nat) \<in> {9, 10, 11, 12, 13, 32}"

definition int_strip :: "string \<Rightarrow> string" where
  "int_strip s = rev (dropWhile is_int_blank (rev (dropWhile is_int_blank s)))"

definition is_digit :: "char \<Rightarrow> bool" where
  "is_digit c \<longleftrightarrow> 48 \<le> (of_char c :: nat) \<and> (of_char c :: nat) \<le> 57"

fun digits_ok :: "string \<Rightarrow> bool" where
  "digits_ok [] = False"
| "digits_ok [c] = is_digit c"
| "digits_ok (c # d # cs) =
     (is_digit c \<and> (if d = CHR ''_'' then digits_ok cs else digits_ok (d # cs)))"

definition digits_value :: "string \<Rightarrow> int" where
  "digits_value s = foldl (\<lambda>a c. 10 * a + (int (of_char c) - 48)) 0 (filter is_digit s)"

definition int_of_string :: "string \<Rightarrow> exn + int" where
  "int_of_string s =
     (case int_strip s of
        [] \<Rightarrow> Inl (ValueError s)
      | c # r \<Rightarrow>
          if c = CHR ''-'' then (if digits_ok r then Inr (- digits_value r) else Inl (ValueError s))
          else if c = CHR ''+'' then (if digits_ok r then Inr (digits_value r) else Inl (ValueError s))
          else if digits_ok (c # r) then Inr (digits_value (c # r))
          else Inl (ValueError s))"

fun py_int :: "py_value \<Rightarrow> exn + int" where
  "py_int (PyInt n) = Inr n"
| "py_int (PyStr s) = int_of_string s"
| "py_int PyNone = Inl (TypeError [])"

text \<open>
  Modelled from the spec: \<^verbatim>\<open>get_work_email\<close> of module \<^verbatim>\<open>sync_single_employee\<close>: the
  contact entry tagged \<^verbatim>\<open>work\<close>, the first one if there are several, \<^verbatim>\<open>None\<close> if there is
  none.
\<close>

definition get_work_email :: "worker \<Rightarrow> string option" where
  "get_work_email w = map_of (contact_emails w) ''work''"

text \<open>
  Modelled from the spec: \<^verbatim>\<open>worker_first_last\<close> and \<^verbatim>\<open>worker_full_name\<close> of module
  \<^verbatim>\<open>sync_single_employee\<close>: the name parts and the display name of the record.
\<close>

definition worker_first_last :: "worker \<Rightarrow> string \<times> string" where
  "worker_first_last w = (given_name w, family_name w)"

definition worker_full_name :: "worker \<Rightarrow> string" where
  "worker_full_name w = display_name w"

text \<open>
  The learning system's client. Its two write operations are calls to an external
  service: each takes the service's state, returns a response or raises, and leaves a new
  state. The state type and both operations are parameters, so every theorem below holds
  for every behaviour of the service. A creation call that does not raise returns a
  dictionary.
\<close>

record create_args =
  first_name :: string
  last_name :: string
  email :: string
  login :: string
  password :: string

record 'c talentlms_client =
  create_user :: "create_args \<Rightarrow> 'c \<Rightarrow> (exn + (string \<times> py_value) list) \<times> 'c"
  add_user_to_course :: "int \<Rightarrow> int \<Rightarrow> 'c \<Rightarrow> (exn + unit) \<times> 'c"

text \<open>What a run does that can be seen from outside: the lines it prints and the calls it
  issues to the client, in order.\<close>

datatype message =
    NoWorkEmail string
  | AlreadyHasAccount string string
  | Creating string string
  | CreatedUserId py_value
  | Enrolled int
  | EnrollmentFailed exn
  | ErrorCreating exn
  | Summary int int int int

datatype event =
    Print message
  | CallCreateUser create_args
  | CallAddUserToCourse int int

record 'c sync_state =
  created_count :: int
  skipped_count :: int
  error_count :: int
  client_state :: 'c
  trace :: "event list"

definition emit :: "event \<Rightarrow> 'c sync_state \<Rightarrow> 'c sync_state" where
  "emit e s = s\<lparr>trace := trace s @ [e]\<rparr>"

text \<open>
  The enrollment block: \<^verbatim>\<open>if user_id:\<close> with its own \<^verbatim>\<open>try\<close>. The argument
  \<^verbatim>\<open>int(user_id)\<close> is evaluated before the call, inside the \<^verbatim>\<open>try\<close>: if it raises, the call
  is not issued and the handler prints the failure.
\<close>

definition try_enroll ::
    "'c talentlms_client \<Rightarrow> int \<Rightarrow> py_value \<Rightarrow> 'c sync_state \<Rightarrow> 'c sync_state" where
  "try_enroll client course user_id s =
     (if truthy_value user_id
      then (case py_int user_id of
              Inl e \<Rightarrow> emit (Print (EnrollmentFailed e)) s
            | Inr uid \<Rightarrow>
                (let s1 = emit (CallAddUserToCourse uid course) s;
                     (r, c) = add_user_to_course client uid course (client_state s1);
                     s2 = s1\<lparr>client_state := c\<rparr>
                 in case r of
                      Inl e \<Rightarrow> emit (Print (EnrollmentFailed e)) s2
                    | Inr _ \<Rightarrow> emit (Print (Enrolled course)) s2))
      else s)"

text \<open>The arguments of the creation call for a worker with the work e-mail \<open>addr\<close>.\<close>

definition creation_args :: "worker \<Rightarrow> string \<Rightarrow> create_args" where
  "creation_args w addr =
     (let (first, last) = worker_first_last w;
          (first, last) = (if first = [] \<and> last = [] then (''Unknown'', ''User'') else (first, last))
      in \<lparr>first_name = first, last_name = last, email = addr, login = addr,
          password = ''Testpassword1''\<rparr>)"

text \<open>The outer \<^verbatim>\<open>try\<close>: create the account, then enroll, then count the creation; a raise
  of the creation call is counted as an error.\<close>

definition try_create ::
    "'c talentlms_client \<Rightarrow> int \<Rightarrow> worker \<Rightarrow> string \<Rightarrow> 'c sync_state \<Rightarrow> 'c sync_state" where
  "try_create client course w addr s =
     (let args = creation_args w addr;
          s0 = emit (Print (Creating (worker_full_name w) addr)) s;
          s1 = emit (CallCreateUser args) s0;
          (r, c) = create_user client args (client_state s1);
          s2 = s1\<lparr>client_state := c\<rparr>
      in case r of
           Inl e \<Rightarrow> (emit (Print (ErrorCreating e)) s2)\<lparr>error_count := error_count s2 + 1\<rparr>
         | Inr created \<Rightarrow>
             (let user_id = dict_get created ''id'';
                  s3 = emit (Print (CreatedUserId user_id)) s2;
                  s4 = try_enroll client course user_id s3
              in s4\<lparr>created_count := created_count s4 + 1\<rparr>))"

text \<open>One iteration of the loop of \<^verbatim>\<open>sync_workers_to_talentlms\<close>.\<close>

definition sync_worker ::
    "'c talentlms_client \<Rightarrow> int \<Rightarrow> string set \<Rightarrow> worker \<Rightarrow> 'c sync_state \<Rightarrow> 'c sync_state" where
  "sync_worker client course existing_emails w s =
     (let full_name = worker_full_name w;
          addr = get_work_email w
      in if \<not> truthy addr
         then (emit (Print (NoWorkEmail full_name)) s)\<lparr>skipped_count := skipped_count s + 1\<rparr>
         else (let email_lower = py_lower (py_strip (the addr))
               in if email_lower \<in> existing_emails
                  then (emit (Print (AlreadyHasAccount full_name (the addr))) s)
                         \<lparr>skipped_count := skipped_count s + 1\<rparr>
                  else try_create client course w (the addr) s))"

text \<open>
  \<^verbatim>\<open>sync_workers_to_talentlms\<close>: the three counters start at zero, the workers are
  processed front to back, and the summary is printed. The onboarding course id
  (\<^verbatim>\<open>COURSE_ID_ONBOARDING\<close>, a constant of module \<^verbatim>\<open>sync_single_employee\<close>) and the service's
  state at the start are parameters.
\<close>

definition sync_loop ::
    "'c talentlms_client \<Rightarrow> int \<Rightarrow> string set \<Rightarrow> worker list \<Rightarrow> 'c sync_state \<Rightarrow> 'c sync_state" where
  "sync_loop client course existing_emails workers s =
     fold (sync_worker client course existing_emails) workers s"

definition sync_workers_to_talentlms ::
    "int \<Rightarrow> worker list \<Rightarrow> string set \<Rightarrow> 'c talentlms_client \<Rightarrow> 'c \<Rightarrow> 'c sync_state" where
  "sync_workers_to_talentlms course workers existing_emails client c0 =
     (let s = sync_loop client course existing_emails workers
                \<lparr>created_count = 0, skipped_count = 0, error_count = 0,
                 client_state = c0, trace = []\<rparr>
      in emit (Print (Summary (int (length workers)) (created_count s) (skipped_count s)
                        (error_count s))) s)"

section \<open>Program\<close>

text \<open>
  \<^verbatim>\<open>main\<close>, from the point where both directories have been fetched: \<open>users\<close> is what
  \<^verbatim>\<open>client.get_users()\<close> returned and \<open>workers\<close> what \<^verbatim>\<open>get_workers()\<close> returned. The result
  is the exit code of the run with the state of the reconciliation, if it ran. Returning
  from \<^verbatim>\<open>main\<close> ends the script with exit code 0, \<^verbatim>\<open>sys.exit(n)\<close> with \<open>n\<close>, and an
  exception that nothing catches ends it with exit code 1.
\<close>

definition main ::
    "(worker list \<Rightarrow> string \<Rightarrow> worker option) \<Rightarrow> nat \<Rightarrow> int \<Rightarrow> 'c talentlms_client \<Rightarrow> 'c
       \<Rightarrow> lms_user list \<Rightarrow> worker list \<Rightarrow> string option \<Rightarrow> int \<times> 'c sync_state option" where
  "main find_worker_by_identifier limit course client c0 users workers manager =
     (let existing_emails = get_all_talentlms_emails users
      in case get_active_adp_workers find_worker_by_identifier limit workers manager of
           SysExit n \<Rightarrow> (n, None)
         | Raised e \<Rightarrow> (1, None)
         | Returned active_workers \<Rightarrow>
             if active_workers = [] then (0, None)
             else (0, Some (sync_workers_to_talentlms course active_workers
                              existing_emails client c0)))"

section \<open>Specification vocabulary\<close>

text \<open>
  The notions the claims are stated with. They are read off the worker list, not off the
  code under verification.
\<close>

text \<open>
  The manager identifier under which a worker of the list is filed: its manager reference,
  when that is the identifier of another worker of the list.
\<close>

definition filed_under :: "worker list \<Rightarrow> worker \<Rightarrow> string option" where
  "filed_under workers w =
     (case manager_ref w of
        None \<Rightarrow> None
      | Some m \<Rightarrow> if resolves workers w m then Some m else None)"

text \<open>
  The direct reports of the manager id \<open>k\<close>: the workers filed under \<open>k\<close>, in the order of the
  worker list.
\<close>

definition direct_reports_of :: "worker list \<Rightarrow> string \<Rightarrow> worker list" where
  "direct_reports_of workers k = filter (\<lambda>w. filed_under workers w = Some k) workers"

text \<open>
  The manager-reference graph on identifiers: an edge leads from the identifier of a worker
  (when it has a truthy one) to the identifier of the manager it is filed under. The
  collector does not follow a report whose own identifier is empty or missing, so such a
  record starts no edge.
\<close>

definition manager_edge_list :: "worker list \<Rightarrow> (string \<times> string) list" where
  "manager_edge_list workers =
     concat (map (\<lambda>w. case filed_under workers w of
                         None \<Rightarrow> []
                       | Some m \<Rightarrow> (if truthy (worker_ident w) then [(the (worker_ident w), m)] else []))
                 workers)"

definition manager_edges :: "worker list \<Rightarrow> (string \<times> string) set" where
  "manager_edges workers = set (manager_edge_list workers)"

text \<open>
  The transitive reports of \<open>k\<close>: the workers filed under \<open>k\<close>, or under the
  identifier of a worker from whom the chain of manager references leads to \<open>k\<close>. Read
  from the top, these are the direct reports of \<open>k\<close> and the transitive reports of each of
  them (lemma \<open>reports_under_unfold\<close>).
\<close>

definition reports_under :: "worker list \<Rightarrow> string \<Rightarrow> worker set" where
  "reports_under workers k =
     {w \<in> set workers. \<exists>m. filed_under workers w = Some m \<and> (m, k) \<in> (manager_edges workers)\<^sup>*}"

text \<open>
  The hierarchy under \<open>k\<close> is too deep for \<open>limit\<close> nested calls: a chain of \<open>limit\<close> manager
  references leads to \<open>k\<close>. On a cycle through \<open>k\<close> there is such a chain for every limit.
\<close>

definition too_deep :: "worker list \<Rightarrow> nat \<Rightarrow> string \<Rightarrow> bool" where
  "too_deep workers limit k \<longleftrightarrow> (\<exists>x. (x, k) \<in> manager_edges workers ^^ limit)"

text \<open>
  No record occurs twice in the worker list, and no two records share a truthy identifier.
\<close>

definition unique_idents :: "worker list \<Rightarrow> bool" where
  "unique_idents workers \<longleftrightarrow>
     distinct workers \<and>
     (\<forall>v \<in> set workers. \<forall>w \<in> set workers.
        truthy (worker_ident v) \<and> worker_ident v = worker_ident w \<longrightarrow> v = w)"

text \<open>
  What the proof of the collector carries through its induction: the four properties of a
  depth-first pre-order listing of the reports under \<open>k\<close>.
\<close>

definition subtree_listing :: "nat \<Rightarrow> worker list \<Rightarrow> string \<Rightarrow> worker list \<Rightarrow> bool" where
  "subtree_listing limit ws k rs \<longleftrightarrow>
     set rs = reports_under ws k \<and>
     distinct rs \<and>
     (\<forall>pre x post. rs = pre @ x # post \<and> truthy (worker_ident x) \<longrightarrow>
        (\<exists>sub rest. post = sub @ rest \<and>
           collect_reports limit (fst (build_org_hierarchy ws)) (the (worker_ident x)) = Inr sub)) \<and>
     (\<forall>m. (\<exists>w \<in> set rs. filed_under ws w = Some m) \<longrightarrow>
        filter (\<lambda>v. filed_under ws v = Some m) rs = direct_reports_of ws m)"

text \<open>
  Two e-mail addresses are the same up to blanks at the ends and the case of ASCII letters.
  \<open>trimmed s t\<close>: \<open>t\<close> is \<open>s\<close> without the blanks at its two ends. \<open>same_letter c d\<close>: the
  characters are equal, or one is an upper-case ASCII letter and the other the lower-case
  letter for it, 32 code points above.
\<close>

definition trimmed :: "string \<Rightarrow> string \<Rightarrow> bool" where
  "trimmed s t \<longleftrightarrow>
     (\<exists>pre post. s = pre @ t @ post \<and> list_all is_space pre \<and> list_all is_space post
        \<and> (t = [] \<or> (\<not> is_space (hd t) \<and> \<not> is_space (last t))))"

definition same_letter :: "char \<Rightarrow> char \<Rightarrow> bool" where
  "same_letter c d \<longleftrightarrow>
     c = d
     \<or> (65 \<le> (of_char c :: nat) \<and> (of_char c :: nat) \<le> 90 \<and> (of_char d :: nat) = of_char c + 32)
     \<or> (65 \<le> (of_char d :: nat) \<and> (of_char d :: nat) \<le> 90 \<and> (of_char c :: nat) = of_char d + 32)"

definition same_address :: "string \<Rightarrow> string \<Rightarrow> bool" where
  "same_address a b \<longleftrightarrow> (\<exists>a' b'. trimmed a a' \<and> trimmed b b' \<and> list_all2 same_letter a' b')"

text \<open>
  An account whose stored e-mail is truthy and the same address as \<open>addr\<close> exists.
\<close>

definition has_account :: "lms_user list \<Rightarrow> string \<Rightarrow> bool" where
  "has_account users addr \<longleftrightarrow>
     list_ex (\<lambda>u. case user_email u of
                     None \<Rightarrow> False
                   | Some e \<Rightarrow> e \<noteq> [] \<and> same_address addr e) users"

text \<open>
  The creation calls and the enrollment calls of a trace, in order.
\<close>

fun create_calls :: "event list \<Rightarrow> create_args list" where
  "create_calls [] = []"
| "create_calls (CallCreateUser a # es) = a # create_calls es"
| "create_calls (_ # es) = create_calls es"

fun enroll_calls :: "event list \<Rightarrow> (int \<times> int) list" where
  "enroll_calls [] = []"
| "enroll_calls (CallAddUserToCourse u k # es) = (u, k) # enroll_calls es"
| "enroll_calls (_ # es) = enroll_calls es"

text \<open>
  A worker for whom the loop reaches the creation call: it has a truthy work e-mail whose
  stripped, lower-cased form is not among the existing e-mails.
\<close>

definition needs_account :: "string set \<Rightarrow> worker \<Rightarrow> bool" where
  "needs_account existing_emails w \<longleftrightarrow>
     truthy (get_work_email w) \<and>
     py_lower (py_strip (the (get_work_email w))) \<notin> existing_emails"

text \<open>
  The events that one iteration adds to the trace.
\<close>

definition step_events ::
    "'c talentlms_client \<Rightarrow> int \<Rightarrow> string set \<Rightarrow> worker \<Rightarrow> 'c sync_state \<Rightarrow> event list" where
  "step_events client course existing_emails w s =
     drop (length (trace s)) (trace (sync_worker client course existing_emails w s))"

text \<open>
  Exactly one of the three counters is one higher in \<open>s'\<close> than in \<open>s\<close>, and the other two
  are unchanged.
\<close>

definition counted_once :: "'c sync_state \<Rightarrow> 'c sync_state \<Rightarrow> bool" where
  "counted_once s s' \<longleftrightarrow>
     (created_count s' = created_count s + 1 \<and> skipped_count s' = skipped_count s
        \<and> error_count s' = error_count s)
   \<or> (created_count s' = created_count s \<and> skipped_count s' = skipped_count s + 1
        \<and> error_count s' = error_count s)
   \<or> (created_count s' = created_count s \<and> skipped_count s' = skipped_count s
        \<and> error_count s' = error_count s + 1)"

text \<open>
  The state in which the loop starts.
\<close>

definition initial_state :: "'c \<Rightarrow> 'c sync_state" where
  "initial_state c0 =
     \<lparr>created_count = 0, skipped_count = 0, error_count = 0, client_state = c0, trace = []\<rparr>"

section \<open>Example data\<close>

text \<open>
  A worker with the identifier \<open>i\<close> and the manager reference \<open>m\<close>, active, without names
  and e-mails; and the same with a work e-mail.
\<close>

definition mk_worker :: "string \<Rightarrow> string option \<Rightarrow> worker" where
  "mk_worker i m =
     \<lparr>associateOID = Some i, workerID = None, manager_primary = m, manager_secondary = None,
      worker_status = Active, given_name = [], family_name = [], display_name = [],
      contact_emails = []\<rparr>"

definition mk_employee :: "string \<Rightarrow> string option \<Rightarrow> string \<Rightarrow> worker" where
  "mk_employee i m addr = (mk_worker i m)\<lparr>contact_emails := [(''work'', addr)]\<rparr>"

text \<open>
  The specification's scenario: worker 1 without manager, worker 2 under 1, worker 3
  under 2.
\<close>

definition scenario_workers :: "worker list" where
  "scenario_workers =
     [mk_worker ''1'' None, mk_worker ''2'' (Some ''1''), mk_worker ''3'' (Some ''2'')]"

text \<open>
  Two different records carry the identifier 2, both under manager 1; worker 3 is under 2.
\<close>

definition shared_id_workers :: "worker list" where
  "shared_id_workers =
     [mk_worker ''1'' None,
      mk_worker ''2'' (Some ''1''),
      (mk_worker ''2'' (Some ''1''))\<lparr>display_name := ''B''\<rparr>,
      mk_worker ''3'' (Some ''2'')]"

text \<open>
  Two records of worker 2: an inactive one under manager 1 and an active one without
  manager.
\<close>

definition former_and_current :: "worker list" where
  "former_and_current =
     [mk_worker ''1'' None,
      (mk_worker ''2'' (Some ''1''))\<lparr>worker_status := Inactive\<rparr>,
      mk_worker ''2'' None]"

text \<open>
  The scenario with worker 2 inactive.
\<close>

definition one_inactive_workers :: "worker list" where
  "one_inactive_workers =
     [mk_worker ''1'' None,
      (mk_worker ''2'' (Some ''1''))\<lparr>worker_status := Inactive\<rparr>,
      mk_worker ''3'' (Some ''2'')]"

text \<open>
  Two workers, each the manager of the other.
\<close>

definition cycle_workers :: "worker list" where
  "cycle_workers = [mk_worker ''a'' (Some ''b''), mk_worker ''b'' (Some ''a'')]"

text \<open>
  A record with a work e-mail and neither \<^verbatim>\<open>associateOID\<close> nor \<^verbatim>\<open>workerID\<close>.
\<close>

definition no_id_manager :: worker where
  "no_id_manager =
     \<lparr>associateOID = None, workerID = None, manager_primary = None, manager_secondary = None,
      worker_status = Active, given_name = ''Ann'', family_name = ''Lee'',
      display_name = ''Ann Lee'', contact_emails = [(''work'', ''boss@x.com'')]\<rparr>"

text \<open>
  A finder of the kind the specification asks for: the first worker whose identifier is
  the given string or whose work e-mail equals it up to case.
\<close>

definition find_by_id_or_email :: "worker list \<Rightarrow> string \<Rightarrow> worker option" where
  "find_by_id_or_email workers identifier =
     find (\<lambda>w. worker_ident w = Some identifier
              \<or> (case get_work_email w of
                    None \<Rightarrow> False
                  | Some a \<Rightarrow> py_lower a = py_lower identifier))
          workers"

text \<open>
  A service whose answers depend on the e-mail address: one address is refused, one gets a
  response without id, one a response with a non-numeric id, every other one the next
  number as id; enrollment of user 1 is refused. Its state counts the accounts.
\<close>

definition scripted_client :: "nat talentlms_client" where
  "scripted_client =
     \<lparr>create_user = (\<lambda>args c.
          if email args = ''down@x.com'' then (Inl (ClientError ''unavailable''), c)
          else if email args = ''noid@x.com'' then (Inr [], Suc c)
          else if email args = ''abc@x.com'' then (Inr [(''id'', PyStr ''abc'')], Suc c)
          else (Inr [(''id'', PyInt (int (Suc c)))], Suc c)),
      add_user_to_course = (\<lambda>uid course c.
          if uid = 1 then (Inl (ClientError ''course closed''), c) else (Inr (), c))\<rparr>"

section \<open>The hierarchy builder and the collector loop\<close>

lemma filed_under_Some:
  "filed_under ws w = Some k \<longleftrightarrow> manager_ref w = Some k \<and> resolves ws w k"
  by (auto simp: filed_under_def split: option.splits)

lemma get_default_upd:
  "get_default (mm(m \<mapsto> v)) k = (if k = m then v else get_default mm k)"
  by (simp add: get_default_def)

lemma build_loop_get_default:
  "get_default (fst (build_loop all ws (mm, wm))) k
     = get_default mm k @ filter (\<lambda>w. filed_under all w = Some k) ws"
proof (induction ws arbitrary: mm wm)
  case Nil
  then show ?case by simp
next
  case (Cons w ws)
  show ?case
  proof (cases "manager_ref w")
    case None
    then show ?thesis using Cons.IH by (simp add: filed_under_def)
  next
    case (Some m)
    show ?thesis
    proof (cases "resolves all w m")
      case True
      have "get_default (fst (build_loop all ws (mm(m \<mapsto> get_default mm m @ [w]), wm(worker_ident w \<mapsto> w)))) k
              = get_default (mm(m \<mapsto> get_default mm m @ [w])) k
                  @ filter (\<lambda>w. filed_under all w = Some k) ws"
        by (rule Cons.IH)
      with Some True show ?thesis by (auto simp: get_default_upd filed_under_def)
    next
      case False
      with Some show ?thesis by (simp add: Cons.IH filed_under_def)
    qed
  qed
qed

lemma build_org_hierarchy_get_default:
  "get_default (fst (build_org_hierarchy ws)) k = direct_reports_of ws k"
  by (simp add: build_org_hierarchy_def build_loop_get_default direct_reports_of_def)
     (simp add: get_default_def)

declare collect_loop.simps(2) [simp del]

lemma collect_loop_Nil: "collect_loop depth mm acc [] = Inr acc"
  by simp

lemma collect_reports_Suc:
  "collect_reports (Suc d) mm k = collect_loop d mm [] (get_default mm k)"
  by (simp add: collect_reports_def)

lemma collect_reports_0: "collect_reports 0 mm k = Inl RecursionError"
  by (simp add: collect_reports_def)

lemma collect_loop_Cons:
  "collect_loop depth mm acc (r # rest) =
     (if truthy (worker_ident r)
      then (case collect_reports depth mm (the (worker_ident r)) of
              Inl e \<Rightarrow> Inl e
            | Inr sub \<Rightarrow> collect_loop depth mm (acc @ [r] @ sub) rest)
      else collect_loop depth mm (acc @ [r]) rest)"
  by (cases depth) (auto simp: collect_loop.simps(2) collect_reports_def Let_def split: sum.splits)

text \<open>
  When the recursive call returns for every direct report still to visit, the loop returns:
  each report, followed by what its own call returned.
\<close>

lemma collect_loop_blocks:
  assumes "\<And>r. r \<in> set ds \<Longrightarrow> truthy (worker_ident r) \<Longrightarrow>
             collect_reports depth mm (the (worker_ident r)) = Inr (f r)"
  shows "collect_loop depth mm acc ds =
           Inr (acc @ concat (map (\<lambda>r. r # (if truthy (worker_ident r) then f r else [])) ds))"
  using assms
proof (induction ds arbitrary: acc)
  case Nil
  then show ?case by simp
next
  case (Cons r rest)
  then show ?case by (simp add: collect_loop_Cons)
qed

lemma get_all_reports_under_manager_eq:
  "get_all_reports_under_manager limit ws k = collect_reports limit (fst (build_org_hierarchy ws)) k"
  by (simp add: get_all_reports_under_manager_def split_def)

text \<open>The only exception that leaves the collector is the interpreter's.\<close>

lemma collect_loop_raises:
  "collect_loop depth mm acc ds = Inl e \<Longrightarrow> e = RecursionError"
proof (induction depth arbitrary: acc ds e)
  case 0
  then show ?case
  proof (induction ds arbitrary: acc)
    case Nil
    then show ?case by simp
  next
    case (Cons r rest)
    then show ?case
      by (cases "truthy (worker_ident r)") (auto simp: collect_loop_Cons collect_reports_0)
  qed
next
  case (Suc d)
  from Suc.prems show ?case
  proof (induction ds arbitrary: acc)
    case Nil
    then show ?case by simp
  next
    case (Cons r rest)
    show ?case
    proof (cases "truthy (worker_ident r)")
      case False
      with Cons show ?thesis by (simp add: collect_loop_Cons)
    next
      case True
      show ?thesis
      proof (cases "collect_loop d mm [] (get_default mm (the (worker_ident r)))")
        case (Inl e')
        then have "e' = RecursionError" by (rule Suc.IH)
        with Cons.prems True Inl show ?thesis
          by (simp add: collect_loop_Cons collect_reports_Suc)
      next
        case (Inr sub)
        with Cons.prems True have "collect_loop (Suc d) mm (acc @ [r] @ sub) rest = Inl e"
          by (simp add: collect_loop_Cons collect_reports_Suc)
        then show ?thesis by (rule Cons.IH)
      qed
    qed
  qed
qed

lemma collect_reports_raises:
  "collect_reports limit mm k = Inl e \<Longrightarrow> e = RecursionError"
  by (cases limit) (auto simp: collect_reports_def dest: collect_loop_raises)

text \<open>The loop raises exactly when one of the recursive calls does.\<close>

lemma collect_loop_raises_iff:
  "collect_loop depth mm acc ds = Inl RecursionError \<longleftrightarrow>
     (\<exists>r \<in> set ds. truthy (worker_ident r)
        \<and> collect_reports depth mm (the (worker_ident r)) = Inl RecursionError)"
proof (induction ds arbitrary: acc)
  case Nil
  then show ?case by simp
next
  case (Cons r rest)
  show ?case
  proof (cases "truthy (worker_ident r)")
    case False
    then show ?thesis by (simp add: collect_loop_Cons Cons.IH)
  next
    case True
    show ?thesis
    proof (cases "collect_reports depth mm (the (worker_ident r))")
      case (Inl e)
      then have "e = RecursionError" by (rule collect_reports_raises)
      with True Inl show ?thesis by (auto simp: collect_loop_Cons)
    next
      case (Inr sub)
      with True show ?thesis by (simp add: collect_loop_Cons Cons.IH)
    qed
  qed
qed

text \<open>A call that returns with some depth returns the same with one level more.\<close>

lemma collect_loop_deeper:
  assumes "\<And>k rs. collect_reports n mm k = Inr rs \<Longrightarrow> collect_reports (Suc n) mm k = Inr rs"
  shows "collect_loop n mm acc ds = Inr rs \<Longrightarrow> collect_loop (Suc n) mm acc ds = Inr rs"
proof (induction ds arbitrary: acc)
  case Nil
  then show ?case by simp
next
  case (Cons r rest)
  show ?case
  proof (cases "truthy (worker_ident r)")
    case False
    with Cons show ?thesis by (simp add: collect_loop_Cons)
  next
    case True
    with Cons.prems obtain sub where s: "collect_reports n mm (the (worker_ident r)) = Inr sub"
      "collect_loop n mm (acc @ [r] @ sub) rest = Inr rs"
      by (auto simp: collect_loop_Cons split: sum.splits)
    from assms [OF s(1)] Cons.IH [OF s(2)] True show ?thesis
      by (simp add: collect_loop_Cons)
  qed
qed

lemma collect_reports_deeper:
  "collect_reports n mm k = Inr rs \<Longrightarrow> collect_reports (Suc n) mm k = Inr rs"
proof (induction n arbitrary: k rs)
  case 0
  then show ?case by (simp add: collect_reports_0)
next
  case (Suc n)
  from Suc.prems have "collect_loop n mm [] (get_default mm k) = Inr rs"
    by (simp add: collect_reports_Suc)
  then have "collect_loop (Suc n) mm [] (get_default mm k) = Inr rs"
    using Suc.IH by (auto intro: collect_loop_deeper)
  then show ?case by (simp add: collect_reports_Suc)
qed

text \<open>Whatever the collector returns is made of the list it started with, the workers
  still to visit and the entries of the manager map.\<close>

lemma collect_loop_subset:
  "collect_loop depth mm acc ds = Inr rs \<Longrightarrow> (\<And>k. set (get_default mm k) \<subseteq> S) \<Longrightarrow>
     set acc \<subseteq> S \<Longrightarrow> set ds \<subseteq> S \<Longrightarrow> set rs \<subseteq> S"
proof (induction depth arbitrary: acc ds rs)
  case 0
  from 0 show ?case
  proof (induction ds arbitrary: acc)
    case Nil
    then show ?case by simp
  next
    case (Cons r rest)
    show ?case
    proof (cases "truthy (worker_ident r)")
      case True
      with Cons.prems(1) show ?thesis by (simp add: collect_loop_Cons collect_reports_0)
    next
      case False
      with Cons.prems have "collect_loop 0 mm (acc @ [r]) rest = Inr rs" "set (acc @ [r]) \<subseteq> S"
        "set rest \<subseteq> S"
        by (simp_all add: collect_loop_Cons)
      with Cons.IH Cons.prems(2) show ?thesis by blast
    qed
  qed
next
  case (Suc d)
  from Suc.prems show ?case
  proof (induction ds arbitrary: acc)
    case Nil
    then show ?case by simp
  next
    case (Cons r rest)
    show ?case
    proof (cases "truthy (worker_ident r)")
      case True
      with Cons.prems(1) obtain sub where
        s: "collect_loop d mm [] (get_default mm (the (worker_ident r))) = Inr sub"
        "collect_loop (Suc d) mm (acc @ [r] @ sub) rest = Inr rs"
        by (auto simp: collect_loop_Cons collect_reports_Suc split: sum.splits)
      from Suc.IH [OF s(1)] Cons.prems(2) have "set sub \<subseteq> S" by simp
      with Cons.prems have "set (acc @ [r] @ sub) \<subseteq> S" "set rest \<subseteq> S" by simp_all
      with Cons.IH [OF s(2)] Cons.prems(2) show ?thesis by blast
    next
      case False
      with Cons.prems have "collect_loop (Suc d) mm (acc @ [r]) rest = Inr rs"
        "set (acc @ [r]) \<subseteq> S" "set rest \<subseteq> S"
        by (simp_all add: collect_loop_Cons)
      with Cons.IH Cons.prems(2) show ?thesis by blast
    qed
  qed
qed

lemma get_all_reports_subset:
  assumes "get_all_reports_under_manager limit ws k = Inr rs"
  shows "set rs \<subseteq> set ws"
proof (cases limit)
  case 0
  with assms show ?thesis by (simp add: get_all_reports_under_manager_eq collect_reports_0)
next
  case (Suc d)
  let ?mm = "fst (build_org_hierarchy ws)"
  from assms Suc have "collect_loop d ?mm [] (get_default ?mm k) = Inr rs"
    by (simp add: get_all_reports_under_manager_eq collect_reports_Suc)
  then show ?thesis
    by (rule collect_loop_subset)
       (simp_all add: build_org_hierarchy_get_default direct_reports_of_def)
qed

section \<open>The manager-reference graph\<close>

lemma truthy_the: "truthy x \<Longrightarrow> x = Some (the x)"
  by (cases x) auto

lemma manager_edges_the:
  "(a, b) \<in> manager_edges ws \<longleftrightarrow>
     (\<exists>w \<in> set ws. truthy (worker_ident w) \<and> a = the (worker_ident w) \<and> filed_under ws w = Some b)"
proof
  assume "(a, b) \<in> manager_edges ws"
  then show "\<exists>w \<in> set ws. truthy (worker_ident w) \<and> a = the (worker_ident w) \<and> filed_under ws w = Some b"
    by (auto simp: manager_edges_def manager_edge_list_def split: option.splits if_splits)
next
  assume "\<exists>w \<in> set ws. truthy (worker_ident w) \<and> a = the (worker_ident w) \<and> filed_under ws w = Some b"
  then obtain w where w: "w \<in> set ws" "truthy (worker_ident w)" "a = the (worker_ident w)"
    "filed_under ws w = Some b"
    by blast
  then have "(a, b) \<in> set (case filed_under ws w of None \<Rightarrow> []
      | Some m \<Rightarrow> (if truthy (worker_ident w) then [(the (worker_ident w), m)] else []))"
    by simp
  with w(1) show "(a, b) \<in> manager_edges ws"
    unfolding manager_edges_def manager_edge_list_def set_concat set_map by blast
qed

lemma manager_edges_iff:
  "(a, b) \<in> manager_edges ws \<longleftrightarrow>
     (\<exists>w \<in> set ws. truthy (worker_ident w) \<and> worker_ident w = Some a \<and> filed_under ws w = Some b)"
proof
  assume "(a, b) \<in> manager_edges ws"
  then obtain w where "w \<in> set ws" "truthy (worker_ident w)" "a = the (worker_ident w)"
    "filed_under ws w = Some b"
    by (auto simp: manager_edges_the)
  then show "\<exists>w \<in> set ws. truthy (worker_ident w) \<and> worker_ident w = Some a \<and> filed_under ws w = Some b"
    using truthy_the [of "worker_ident w"] by auto
next
  assume "\<exists>w \<in> set ws. truthy (worker_ident w) \<and> worker_ident w = Some a \<and> filed_under ws w = Some b"
  then show "(a, b) \<in> manager_edges ws"
    by (force simp: manager_edges_the)
qed

lemma edge_of_report:
  "r \<in> set ws \<Longrightarrow> filed_under ws r = Some k \<Longrightarrow> truthy (worker_ident r) \<Longrightarrow>
     (the (worker_ident r), k) \<in> manager_edges ws"
  by (auto simp: manager_edges_the)

lemma finite_manager_edges: "finite (manager_edges ws)"
  by (simp add: manager_edges_def)

lemma wf_manager_edges: "acyclic (manager_edges ws) \<Longrightarrow> wf (manager_edges ws)"
  by (simp add: finite_acyclic_wf finite_manager_edges)

lemma single_valued_manager_edges:
  "unique_idents ws \<Longrightarrow> single_valued (manager_edges ws)"
  unfolding single_valued_def manager_edges_iff unique_idents_def
  by (metis option.inject)

lemma set_direct_reports_of:
  "set (direct_reports_of ws k) = {w \<in> set ws. filed_under ws w = Some k}"
  by (simp add: direct_reports_of_def)

text \<open>The reports under k: its direct reports, and the reports under each of them.\<close>

lemma reports_under_unfold:
  "reports_under ws k =
     set (direct_reports_of ws k) \<union>
     (\<Union>r \<in> {r \<in> set (direct_reports_of ws k). truthy (worker_ident r)}.
         reports_under ws (the (worker_ident r)))"
proof (intro equalityI subsetI)
  fix w assume "w \<in> reports_under ws k"
  then obtain m where w: "w \<in> set ws" "filed_under ws w = Some m"
    and mk: "(m, k) \<in> (manager_edges ws)\<^sup>*"
    by (auto simp: reports_under_def)
  from mk show "w \<in> set (direct_reports_of ws k) \<union>
     (\<Union>r \<in> {r \<in> set (direct_reports_of ws k). truthy (worker_ident r)}.
         reports_under ws (the (worker_ident r)))"
  proof (cases rule: rtranclE)
    case base
    with w show ?thesis by (simp add: set_direct_reports_of)
  next
    case (step y)
    from step(2) obtain r where r: "r \<in> set ws" "truthy (worker_ident r)"
      "worker_ident r = Some y" "filed_under ws r = Some k"
      by (auto simp: manager_edges_iff)
    with w step(1) have "w \<in> reports_under ws (the (worker_ident r))"
      by (auto simp: reports_under_def)
    with r show ?thesis by (auto simp: set_direct_reports_of)
  qed
next
  fix w assume "w \<in> set (direct_reports_of ws k) \<union>
     (\<Union>r \<in> {r \<in> set (direct_reports_of ws k). truthy (worker_ident r)}.
         reports_under ws (the (worker_ident r)))"
  then consider "w \<in> set (direct_reports_of ws k)"
    | r where "r \<in> set (direct_reports_of ws k)" "truthy (worker_ident r)"
        "w \<in> reports_under ws (the (worker_ident r))"
    by auto
  then show "w \<in> reports_under ws k"
  proof cases
    case 1
    then show ?thesis by (auto simp: reports_under_def set_direct_reports_of)
  next
    case 2
    from 2(1,2) have "(the (worker_ident r), k) \<in> manager_edges ws"
      by (simp add: set_direct_reports_of edge_of_report)
    with 2(3) show ?thesis
      by (auto simp: reports_under_def intro: rtrancl_into_rtrancl)
  qed
qed

text \<open>A direct report of k is not under a direct report of k.\<close>

lemma sibling_not_under:
  assumes ac: "acyclic (manager_edges ws)"
    and r: "r \<in> set ws" "filed_under ws r = Some k" "truthy (worker_ident r)"
    and v: "filed_under ws v = Some k"
  shows "v \<notin> reports_under ws (the (worker_ident r))"
proof
  assume "v \<in> reports_under ws (the (worker_ident r))"
  with v have "(k, the (worker_ident r)) \<in> (manager_edges ws)\<^sup>*"
    by (auto simp: reports_under_def)
  moreover from r have "(the (worker_ident r), k) \<in> manager_edges ws"
    by (rule edge_of_report)
  ultimately have "(k, k) \<in> (manager_edges ws)\<^sup>+" by (rule rtrancl_into_trancl1)
  with ac show False by (simp add: acyclic_def)
qed

text \<open>Two different direct reports of k have disjoint subtrees.\<close>

lemma siblings_disjoint:
  assumes ac: "acyclic (manager_edges ws)" and un: "unique_idents ws"
    and r: "r \<in> set ws" "filed_under ws r = Some k" "truthy (worker_ident r)"
    and s: "s \<in> set ws" "filed_under ws s = Some k" "truthy (worker_ident s)"
    and ne: "r \<noteq> s"
  shows "reports_under ws (the (worker_ident r)) \<inter> reports_under ws (the (worker_ident s)) = {}"
proof -
  let ?R = "manager_edges ws"
  let ?a = "the (worker_ident r)"
  let ?b = "the (worker_ident s)"
  have sv: "single_valued ?R" using un by (rule single_valued_manager_edges)
  have ra: "(?a, k) \<in> ?R" using r by (rule edge_of_report)
  have sb: "(?b, k) \<in> ?R" using s by (rule edge_of_report)
  have neq: "?a \<noteq> ?b"
  proof
    assume "?a = ?b"
    with r(3) s(3) have "worker_ident r = worker_ident s"
      by (cases "worker_ident r"; cases "worker_ident s") auto
    with un r(1,3) s(1) ne show False by (auto simp: unique_idents_def)
  qed
  have no: "(x, y) \<in> ?R\<^sup>* \<Longrightarrow> (x, k) \<in> ?R \<Longrightarrow> (y, k) \<in> ?R \<Longrightarrow> x \<noteq> y \<Longrightarrow> False" for x y
  proof -
    assume xy: "(x, y) \<in> ?R\<^sup>*" and xk: "(x, k) \<in> ?R" and yk: "(y, k) \<in> ?R" and "x \<noteq> y"
    from xy \<open>x \<noteq> y\<close> obtain z where "(x, z) \<in> ?R" "(z, y) \<in> ?R\<^sup>*"
      by (auto elim: converse_rtranclE)
    with sv xk have "(k, y) \<in> ?R\<^sup>*" by (auto dest: single_valuedD)
    from this yk have "(k, k) \<in> ?R\<^sup>+" by (rule rtrancl_into_trancl1)
    with ac show False by (simp add: acyclic_def)
  qed
  show ?thesis
  proof (rule ccontr)
    assume "reports_under ws ?a \<inter> reports_under ws ?b \<noteq> {}"
    then obtain w m m' where "filed_under ws w = Some m" "(m, ?a) \<in> ?R\<^sup>*"
      "filed_under ws w = Some m'" "(m', ?b) \<in> ?R\<^sup>*"
      by (auto simp: reports_under_def)
    then have "(m, ?a) \<in> ?R\<^sup>*" "(m, ?b) \<in> ?R\<^sup>*" by auto
    with sv have "(?a, ?b) \<in> ?R\<^sup>* \<or> (?b, ?a) \<in> ?R\<^sup>*"
      by (rule single_valued_confluent)
    then show False using no [OF _ ra sb neq] no [OF _ sb ra] neq by auto
  qed
qed

lemma same_ident_in_reports:
  assumes un: "unique_idents ws" and sub: "set rs \<subseteq> set ws"
    and w: "w \<in> set ws" "truthy (worker_ident w)"
  shows "w \<in> set rs \<longleftrightarrow> worker_ident w \<in> worker_ident ` set rs"
proof
  assume "w \<in> set rs"
  then show "worker_ident w \<in> worker_ident ` set rs" by blast
next
  assume "worker_ident w \<in> worker_ident ` set rs"
  then obtain v where v: "v \<in> set rs" "worker_ident w = worker_ident v" by blast
  with sub have "v \<in> set ws" by blast
  with un w v(2) have "w = v" unfolding unique_idents_def by blast
  with v(1) show "w \<in> set rs" by simp
qed

section \<open>Lists of blocks\<close>

text \<open>Where an element of a concatenation of blocks (a head followed by a tail) sits.\<close>

lemma concat_blocks_split:
  assumes "concat (map (\<lambda>r. r # sub r) ds) = pre @ x # post"
  shows "(\<exists>ds2. x \<in> set ds \<and> post = sub x @ concat (map (\<lambda>r. r # sub r) ds2))
       \<or> (\<exists>r p q ds2. r \<in> set ds \<and> sub r = p @ x # q
              \<and> post = q @ concat (map (\<lambda>r. r # sub r) ds2))"
  using assms
proof (induction ds arbitrary: pre)
  case Nil
  then show ?case by simp
next
  case (Cons r ds)
  let ?F = "concat (map (\<lambda>r. r # sub r) ds)"
  show ?case
  proof (cases pre)
    case Nil
    with Cons.prems have "x = r" "post = sub r @ ?F" by auto
    then show ?thesis by auto
  next
    case (Cons a pre')
    with Cons.prems have eq: "sub r @ ?F = pre' @ x # post" by auto
    then obtain us where
      "(sub r = pre' @ us \<and> us @ ?F = x # post) \<or> (sub r @ us = pre' \<and> ?F = us @ x # post)"
      unfolding append_eq_append_conv2 by blast
    then consider (here) us' where "sub r = pre' @ x # us'" "post = us' @ ?F"
      | (later) pre'' where "?F = pre'' @ x # post"
    proof (elim disjE conjE, goal_cases)
      case 1
      show ?case
      proof (cases us)
        case Nil
        with 1 have "?F = [] @ x # post" by simp
        then show ?thesis by (rule 1(2))
      next
        case (Cons u us')
        with 1 show ?thesis by auto
      qed
    next
      case 2
      then show ?case by blast
    qed
    then show ?thesis
    proof cases
      case here
      then have "r \<in> set (r # ds) \<and> sub r = pre' @ x # us' \<and> post = us' @ ?F"
        by simp
      then show ?thesis by blast
    next
      case later
      from Cons.IH [OF later] show ?thesis
      proof (elim disjE exE conjE, goal_cases)
        case (1 ds2)
        then have "x \<in> set (r # ds) \<and> post = sub x @ concat (map (\<lambda>r. r # sub r) ds2)"
          by simp
        then show ?case by blast
      next
        case (2 r' p q ds2)
        then have "r' \<in> set (r # ds) \<and> sub r' = p @ x # q
            \<and> post = q @ concat (map (\<lambda>r. r # sub r) ds2)"
          by simp
        then show ?case by blast
      qed
    qed
  qed
qed

lemma concat_map_only:
  assumes "distinct ds" "r0 \<in> set ds" "\<And>r. r \<in> set ds \<Longrightarrow> r \<noteq> r0 \<Longrightarrow> g r = []"
  shows "concat (map g ds) = g r0"
  using assms
proof (induction ds)
  case Nil
  then show ?case by simp
next
  case (Cons a ds)
  show ?case
  proof (cases "a = r0")
    case True
    with Cons.prems have "\<And>r. r \<in> set ds \<Longrightarrow> g r = []" by auto
    then have "concat (map g ds) = []" by simp
    with True show ?thesis by simp
  next
    case False
    with Cons.prems have "g a = []" "concat (map g ds) = g r0"
      using Cons.IH by auto
    then show ?thesis by simp
  qed
qed

section \<open>When the collector raises\<close>

text \<open>
  The collector raises exactly when the hierarchy under the manager id is too deep for the
  number of nested calls allowed, and returns otherwise.
\<close>

lemma too_deep_Suc:
  "too_deep ws (Suc n) k \<longleftrightarrow>
     (\<exists>r \<in> set (direct_reports_of ws k).
        truthy (worker_ident r) \<and> too_deep ws n (the (worker_ident r)))"
proof
  assume "too_deep ws (Suc n) k"
  then obtain x y where xy: "(x, y) \<in> manager_edges ws ^^ n" "(y, k) \<in> manager_edges ws"
    by (auto simp: too_deep_def)
  from xy(2) obtain r where "r \<in> set ws" "truthy (worker_ident r)" "y = the (worker_ident r)"
    "filed_under ws r = Some k"
    by (auto simp: manager_edges_the)
  with xy(1) show "\<exists>r \<in> set (direct_reports_of ws k).
        truthy (worker_ident r) \<and> too_deep ws n (the (worker_ident r))"
    by (auto simp: too_deep_def set_direct_reports_of)
next
  assume "\<exists>r \<in> set (direct_reports_of ws k).
        truthy (worker_ident r) \<and> too_deep ws n (the (worker_ident r))"
  then obtain r x where r: "r \<in> set ws" "filed_under ws r = Some k" "truthy (worker_ident r)"
    "(x, the (worker_ident r)) \<in> manager_edges ws ^^ n"
    by (auto simp: too_deep_def set_direct_reports_of)
  from r(1-3) have "(the (worker_ident r), k) \<in> manager_edges ws"
    by (auto simp: manager_edges_the)
  with r(4) have "(x, k) \<in> manager_edges ws ^^ Suc n" by auto
  then show "too_deep ws (Suc n) k" unfolding too_deep_def by blast
qed

lemma collect_reports_raises_iff:
  "collect_reports n (fst (build_org_hierarchy ws)) k = Inl RecursionError \<longleftrightarrow> too_deep ws n k"
proof (induction n arbitrary: k)
  case 0
  then show ?case by (simp add: collect_reports_0 too_deep_def)
next
  case (Suc n)
  then show ?case
    by (simp add: collect_reports_Suc collect_loop_raises_iff build_org_hierarchy_get_default
        too_deep_Suc)
qed

lemma collector_raises_iff:
  "get_all_reports_under_manager limit ws k = Inl RecursionError \<longleftrightarrow> too_deep ws limit k"
  by (simp add: get_all_reports_under_manager_eq collect_reports_raises_iff)

lemma collector_returns_iff:
  "(\<exists>rs. get_all_reports_under_manager limit ws k = Inr rs) \<longleftrightarrow> \<not> too_deep ws limit k"
proof (cases "get_all_reports_under_manager limit ws k")
  case (Inl e)
  then have "e = RecursionError"
    by (simp add: get_all_reports_under_manager_eq collect_reports_raises)
  with Inl show ?thesis by (simp flip: collector_raises_iff)
next
  case (Inr rs)
  then show ?thesis by (simp flip: collector_raises_iff)
qed

text \<open>
  A chain of manager references climbs in any ranking that every reference climbs in, so a
  bounded ranking bounds the chains.
\<close>

lemma relpow_rank:
  assumes "\<And>a b. (a, b) \<in> R \<Longrightarrow> f a < (f b :: nat)"
  shows "(x, y) \<in> R ^^ n \<Longrightarrow> f x + n \<le> f y"
proof (induction n arbitrary: y)
  case 0
  then show ?case by simp
next
  case (Suc n)
  then obtain z where "(x, z) \<in> R ^^ n" "(z, y) \<in> R" by auto
  with Suc.IH [of z] assms [of z y] show ?case by simp
qed

lemma not_too_deep_rank:
  assumes "\<And>a b. (a, b) \<in> manager_edges ws \<Longrightarrow> f a < (f b :: nat)"
    and "f k < limit"
  shows "\<not> too_deep ws limit k"
proof
  assume "too_deep ws limit k"
  then obtain x where "(x, k) \<in> manager_edges ws ^^ limit" by (auto simp: too_deep_def)
  from relpow_rank [of "manager_edges ws" f, OF assms(1) this] assms(2) show False by simp
qed

section \<open>The collector returns the pre-order listing\<close>

text \<open>
  By induction on the number of nested calls allowed: the call for \<open>k\<close> returns once
  the calls for its direct reports return with one level less, and the blocks it
  concatenates are pairwise disjoint.
\<close>

lemma collect_reports_listing:
  assumes ac: "acyclic (manager_edges ws)" and un: "unique_idents ws"
  shows "\<not> too_deep ws n k \<Longrightarrow>
         \<exists>rs. collect_reports n (fst (build_org_hierarchy ws)) k = Inr rs \<and> subtree_listing n ws k rs"
proof (induction n arbitrary: k)
  case 0
  then show ?case by (simp add: too_deep_def)
next
  case (Suc n)
  let ?mm = "fst (build_org_hierarchy ws)"
  let ?D = "direct_reports_of ws k"
  define sub where
    "sub r = (if truthy (worker_ident r)
              then (case collect_reports n ?mm (the (worker_ident r)) of Inl e \<Rightarrow> [] | Inr l \<Rightarrow> l)
              else [])"
    for r
  let ?rs = "concat (map (\<lambda>r. r # sub r) ?D)"
  have D: "r \<in> set ws" "filed_under ws r = Some k" if "r \<in> set ?D" for r
    using that by (simp_all add: set_direct_reports_of)
  have dD: "distinct ?D"
    using un by (simp add: unique_idents_def direct_reports_of_def)
  have IH: "collect_reports n ?mm (the (worker_ident r)) = Inr (sub r)
            \<and> subtree_listing n ws (the (worker_ident r)) (sub r)"
    if "r \<in> set ?D" "truthy (worker_ident r)" for r
  proof -
    from that Suc.prems have "\<not> too_deep ws n (the (worker_ident r))"
      by (auto simp: too_deep_Suc)
    from Suc.IH [OF this] that(2) show ?thesis by (auto simp: sub_def)
  qed
  have sub_set: "set (sub r) = reports_under ws (the (worker_ident r))"
    if "r \<in> set ?D" "truthy (worker_ident r)" for r
    using IH [OF that] by (simp add: subtree_listing_def)
  have sub_Nil: "sub r = []" if "\<not> truthy (worker_ident r)" for r
    using that by (simp add: sub_def)
  have in_sub: "r \<in> set ?D \<and> truthy (worker_ident r) \<and> v \<in> reports_under ws (the (worker_ident r))"
    if "r \<in> set ?D" "v \<in> set (sub r)" for r v
  proof (cases "truthy (worker_ident r)")
    case True
    with that sub_set show ?thesis by simp
  next
    case False
    with that sub_Nil show ?thesis by simp
  qed
  have not_sibling: "filed_under ws v \<noteq> Some k" if "r \<in> set ?D" "v \<in> set (sub r)" for r v
    using in_sub [OF that] sibling_not_under [OF ac, of r k v] D by blast

  have res: "collect_reports (Suc n) ?mm k = Inr ?rs"
  proof -
    have "collect_loop n ?mm [] ?D =
        Inr ([] @ concat (map (\<lambda>r. r # (if truthy (worker_ident r) then sub r else [])) ?D))"
      by (rule collect_loop_blocks) (use IH in simp)
    moreover have "(if truthy (worker_ident r) then sub r else []) = sub r" for r
      by (simp add: sub_def)
    ultimately show ?thesis
      by (simp add: collect_reports_Suc build_org_hierarchy_get_default)
  qed

  have set_rs: "set ?rs = reports_under ws k"
  proof -
    have "set ?rs = (\<Union>r \<in> set ?D. insert r (set (sub r)))" by simp
    also have "\<dots> = set ?D \<union> (\<Union>r \<in> {r \<in> set ?D. truthy (worker_ident r)}.
        reports_under ws (the (worker_ident r)))"
      using in_sub sub_set by fastforce
    also have "\<dots> = reports_under ws k" by (rule reports_under_unfold [symmetric])
    finally show ?thesis .
  qed

  have dist_rs: "distinct ?rs"
  proof (rule distinct_concat)
    show "distinct (map (\<lambda>r. r # sub r) ?D)"
      using dD by (simp add: distinct_map inj_on_def)
  next
    fix ys assume "ys \<in> set (map (\<lambda>r. r # sub r) ?D)"
    then obtain r where r: "r \<in> set ?D" "ys = r # sub r" by auto
    have "distinct (sub r)"
      using IH [OF r(1)] sub_Nil [of r] by (cases "truthy (worker_ident r)") (auto simp: subtree_listing_def)
    moreover have "r \<notin> set (sub r)"
      using not_sibling [OF r(1), of r] D [OF r(1)] by blast
    ultimately show "distinct ys" using r by simp
  next
    fix ys zs
    assume "ys \<in> set (map (\<lambda>r. r # sub r) ?D)" "zs \<in> set (map (\<lambda>r. r # sub r) ?D)" "ys \<noteq> zs"
    then obtain r s where r: "r \<in> set ?D" "ys = r # sub r" and s: "s \<in> set ?D" "zs = s # sub s"
      and ne: "r \<noteq> s"
      by auto
    have "r \<notin> set (sub s)" using not_sibling [OF s(1), of r] D [OF r(1)] by blast
    moreover have "s \<notin> set (sub r)" using not_sibling [OF r(1), of s] D [OF s(1)] by blast
    moreover have "set (sub r) \<inter> set (sub s) = {}"
    proof (rule ccontr)
      assume "set (sub r) \<inter> set (sub s) \<noteq> {}"
      then obtain v where "v \<in> set (sub r)" "v \<in> set (sub s)" by auto
      with in_sub r(1) s(1) have
        "truthy (worker_ident r)" "v \<in> reports_under ws (the (worker_ident r))"
        "truthy (worker_ident s)" "v \<in> reports_under ws (the (worker_ident s))"
        by blast+
      with siblings_disjoint [OF ac un, of r k s] D [OF r(1)] D [OF s(1)] ne
      show False by blast
    qed
    ultimately show "set ys \<inter> set zs = {}" using r s ne by auto
  qed

  have follow: "\<exists>sub' rest. post = sub' @ rest \<and>
           collect_reports (Suc n) ?mm (the (worker_ident x)) = Inr sub'"
    if "?rs = pre @ x # post" "truthy (worker_ident x)" for pre x post
    using concat_blocks_split [OF that(1)]
  proof (elim disjE exE conjE, goal_cases)
    case (1 ds2)
    with IH [of x] that(2) collect_reports_deeper show ?case by blast
  next
    case (2 r p q ds2)
    then have "truthy (worker_ident r)" using sub_Nil [of r] by auto
    with IH [OF 2(1)] have "subtree_listing n ws (the (worker_ident r)) (sub r)" by simp
    with 2(2) that(2) obtain sub' rest where "q = sub' @ rest"
      "collect_reports n ?mm (the (worker_ident x)) = Inr sub'"
      unfolding subtree_listing_def by blast
    with 2(3) collect_reports_deeper [OF this(2)] show ?case by auto
  qed

  have order: "filter (\<lambda>v. filed_under ws v = Some m) ?rs = direct_reports_of ws m"
    if "w \<in> set ?rs" "filed_under ws w = Some m" for w m
  proof (cases "m = k")
    case True
    have one: "filter (\<lambda>v. filed_under ws v = Some k) (r # sub r) = [r]" if "r \<in> set ?D" for r
      using not_sibling [OF that] D [OF that] by (auto simp: filter_empty_conv)
    have "filter (\<lambda>v. filed_under ws v = Some k) ?rs
        = concat (map (\<lambda>r. filter (\<lambda>v. filed_under ws v = Some k) (r # sub r)) ?D)"
      by (simp only: filter_concat map_map comp_def)
    also have "\<dots> = concat (map (\<lambda>r. [r]) ?D)"
      by (rule arg_cong [where f = concat], rule map_cong [OF refl], rule one)
    also have "\<dots> = ?D" by simp
    finally show ?thesis using True by simp
  next
    case False
    from that(1) obtain r0 where r0: "r0 \<in> set ?D" "w \<in> set (r0 # sub r0)" by auto
    with that(2) False D have w0: "w \<in> set (sub r0)" by auto
    have t0: "truthy (worker_ident r0)" and u0: "w \<in> reports_under ws (the (worker_ident r0))"
      using in_sub [OF r0(1) w0] by simp_all
    have wws: "w \<in> set (direct_reports_of ws m)"
      using u0 that(2) by (simp add: reports_under_def set_direct_reports_of)
    have f0: "filter (\<lambda>v. filed_under ws v = Some m) (r0 # sub r0) = direct_reports_of ws m"
    proof -
      from IH [OF r0(1) t0] w0 that(2)
      have "filter (\<lambda>v. filed_under ws v = Some m) (sub r0) = direct_reports_of ws m"
        unfolding subtree_listing_def by blast
      with D [OF r0(1)] False show ?thesis by simp
    qed
    have f1: "filter (\<lambda>v. filed_under ws v = Some m) (r # sub r) = []"
      if r: "r \<in> set ?D" "r \<noteq> r0" for r
    proof (rule ccontr)
      assume "filter (\<lambda>v. filed_under ws v = Some m) (r # sub r) \<noteq> []"
      with D [OF r(1)] False obtain v where v: "v \<in> set (sub r)" "filed_under ws v = Some m"
        by (auto simp: filter_empty_conv)
      have t: "truthy (worker_ident r)" using in_sub [OF r(1) v(1)] by simp
      from IH [OF r(1) t] v
      have "filter (\<lambda>v. filed_under ws v = Some m) (sub r) = direct_reports_of ws m"
        unfolding subtree_listing_def by blast
      with wws have "w \<in> set (filter (\<lambda>v. filed_under ws v = Some m) (sub r))" by simp
      then have "w \<in> set (sub r)" by simp
      with sub_set [OF r(1) t] have "w \<in> reports_under ws (the (worker_ident r))" by simp
      with u0 siblings_disjoint [OF ac un, of r k r0] D [OF r(1)] D [OF r0(1)] t t0 r(2)
      show False by blast
    qed
    have "concat (map (\<lambda>r. filter (\<lambda>v. filed_under ws v = Some m) (r # sub r)) ?D)
        = filter (\<lambda>v. filed_under ws v = Some m) (r0 # sub r0)"
      using dD r0(1) f1 by (rule concat_map_only)
    with f0 show ?thesis by (simp add: filter_concat comp_def)
  qed

  have "subtree_listing (Suc n) ws k ?rs"
    unfolding subtree_listing_def
    using set_rs dist_rs follow order by blast
  with res show ?case by blast
qed

section \<open>Evaluating the examples\<close>

lemma worker_ident_mk_worker: "worker_ident (mk_worker i m) = (if i = [] then None else Some i)"
  by (simp add: worker_ident_def mk_worker_def py_or_def)

lemma manager_ref_mk_worker: "manager_ref (mk_worker i m) = m"
  by (cases m) (simp_all add: manager_ref_def mk_worker_def)

lemmas example_simps =
  mk_worker_def mk_employee_def worker_ident_def manager_ref_def py_or_def get_work_email_def
  worker_full_name_def worker_first_last_def creation_args_def needs_account_def
  is_active_worker_def initial_state_def scripted_client_def

lemma collect_reports_pos:
  "0 < n \<Longrightarrow> collect_reports n mm k = collect_loop (n - 1) mm [] (get_default mm k)"
  by (cases n) (simp_all add: collect_reports_Suc)

lemma collect_reports_direct:
  "0 < n \<Longrightarrow> collect_reports n (fst (build_org_hierarchy ws)) k =
     collect_loop (n - 1) (fst (build_org_hierarchy ws)) []
       (filter (\<lambda>w. filed_under ws w = Some k) ws)"
  by (simp add: collect_reports_pos build_org_hierarchy_get_default direct_reports_of_def)

lemma get_all_direct:
  "0 < n \<Longrightarrow> get_all_reports_under_manager n ws k =
     collect_loop (n - 1) (fst (build_org_hierarchy ws)) []
       (filter (\<lambda>w. filed_under ws w = Some k) ws)"
  by (simp add: get_all_reports_under_manager_eq collect_reports_direct)

lemmas collect_simps = get_all_direct collect_reports_direct collect_loop_Cons collect_loop_Nil

lemma scenario_filed:
  "filed_under scenario_workers (mk_worker ''1'' None) = None"
  "filed_under scenario_workers (mk_worker ''2'' (Some ''1'')) = Some ''1''"
  "filed_under scenario_workers (mk_worker ''3'' (Some ''2'')) = Some ''2''"
  by (simp_all add: filed_under_def resolves_def scenario_workers_def mk_worker_def
      worker_ident_def manager_ref_def py_or_def)

lemma scenario_result:
  "get_all_reports_under_manager 900 scenario_workers ''1''
     = Inr [mk_worker ''2'' (Some ''1''), mk_worker ''3'' (Some ''2'')]"
  by (simp add: collect_simps scenario_workers_def scenario_filed [unfolded scenario_workers_def]
      worker_ident_mk_worker)

lemma scenario_edges:
  "manager_edges scenario_workers = {(''2'', ''1''), (''3'', ''2'')}"
  by (simp add: manager_edges_def manager_edge_list_def scenario_workers_def
      scenario_filed [unfolded scenario_workers_def] worker_ident_mk_worker)

lemma scenario_acyclic: "acyclic (manager_edges scenario_workers)"
  unfolding scenario_edges by (rule wf_acyclic) (simp add: rtrancl_insert)

lemma scenario_unique: "unique_idents scenario_workers"
  by (simp add: unique_idents_def scenario_workers_def worker_ident_mk_worker)
     (simp add: mk_worker_def)

lemma scenario_not_too_deep: "\<not> too_deep scenario_workers 900 ''1''"
  by (rule not_too_deep_rank [where f = "\<lambda>k. if k = ''3'' then 0 else if k = ''2'' then 1 else 2"])
     (auto simp: scenario_edges)

lemma scenario_too_deep: "too_deep scenario_workers 2 ''1''"
proof -
  have "get_all_reports_under_manager 2 scenario_workers ''1'' = Inl RecursionError"
    by (simp add: collect_simps collect_reports_0 scenario_workers_def
        scenario_filed [unfolded scenario_workers_def] worker_ident_mk_worker)
  then show ?thesis by (simp add: collector_raises_iff)
qed

lemma int_of_string_abc: "int_of_string ''abc'' = Inl (ValueError ''abc'')"
  by code_simp

section \<open>The collector on a cycle\<close>

text \<open>
  On a cycle the call for one of the two workers needs the call for the other, whatever
  the number of nested calls allowed: the collector raises.
\<close>

lemma cycle_filed:
  "filed_under cycle_workers (mk_worker ''a'' (Some ''b'')) = Some ''b''"
  "filed_under cycle_workers (mk_worker ''b'' (Some ''a'')) = Some ''a''"
  by (simp_all add: filed_under_def resolves_def cycle_workers_def mk_worker_def
      worker_ident_def manager_ref_def py_or_def)

lemma cycle_direct:
  "direct_reports_of cycle_workers ''a'' = [mk_worker ''b'' (Some ''a'')]"
  "direct_reports_of cycle_workers ''b'' = [mk_worker ''a'' (Some ''b'')]"
  by (simp_all add: direct_reports_of_def cycle_workers_def cycle_filed [unfolded cycle_workers_def])

lemma cycle_too_deep: "too_deep cycle_workers n ''a'' \<and> too_deep cycle_workers n ''b''"
proof (induction n)
  case 0
  then show ?case by (simp add: too_deep_def)
next
  case (Suc n)
  then show ?case by (simp add: too_deep_Suc cycle_direct worker_ident_mk_worker)
qed

lemma collector_raises_on_cycle:
  "get_all_reports_under_manager limit cycle_workers ''a'' = Inl RecursionError
   \<and> \<not> acyclic (manager_edges cycle_workers)"
proof -
  have 1: "get_all_reports_under_manager limit cycle_workers ''a'' = Inl RecursionError"
    by (simp add: collector_raises_iff cycle_too_deep)
  have "manager_edges cycle_workers = {(''a'', ''b''), (''b'', ''a'')}"
    by (simp add: manager_edges_def manager_edge_list_def cycle_workers_def
        cycle_filed [unfolded cycle_workers_def] worker_ident_mk_worker)
  moreover have "(''a'', ''a'') \<in> {(''a'', ''b''), (''b'', ''a'')}\<^sup>+"
    by (rule trancl_into_trancl [where b = "''b''"]) auto
  ultimately have 2: "\<not> acyclic (manager_edges cycle_workers)"
    by (auto simp: acyclic_def)
  from 1 2 show ?thesis by simp
qed

section \<open>The reconciliation loop, case by case\<close>

lemma emit_simps [simp]:
  "trace (emit e s) = trace s @ [e]"
  "created_count (emit e s) = created_count s"
  "skipped_count (emit e s) = skipped_count s"
  "error_count (emit e s) = error_count s"
  "client_state (emit e s) = client_state s"
  by (simp_all add: emit_def)

lemma create_calls_append [simp]: "create_calls (xs @ ys) = create_calls xs @ create_calls ys"
  by (induction xs rule: create_calls.induct) simp_all

lemma enroll_calls_append [simp]: "enroll_calls (xs @ ys) = enroll_calls xs @ enroll_calls ys"
  by (induction xs rule: enroll_calls.induct) simp_all

text \<open>The enrollment block, case by case.\<close>

lemma try_enroll_no_id:
  "\<not> truthy_value uid \<Longrightarrow> try_enroll client course uid s = s"
  by (simp add: try_enroll_def)

lemma try_enroll_bad_id:
  "truthy_value uid \<Longrightarrow> py_int uid = Inl e \<Longrightarrow>
     try_enroll client course uid s = s\<lparr>trace := trace s @ [Print (EnrollmentFailed e)]\<rparr>"
  by (simp add: try_enroll_def emit_def)

lemma try_enroll_raises:
  "truthy_value uid \<Longrightarrow> py_int uid = Inr n \<Longrightarrow>
   add_user_to_course client n course (client_state s) = (Inl e, c) \<Longrightarrow>
     try_enroll client course uid s =
       s\<lparr>client_state := c,
         trace := trace s @ [CallAddUserToCourse n course, Print (EnrollmentFailed e)]\<rparr>"
  by (simp add: try_enroll_def emit_def)

lemma try_enroll_ok:
  "truthy_value uid \<Longrightarrow> py_int uid = Inr n \<Longrightarrow>
   add_user_to_course client n course (client_state s) = (Inr u, c) \<Longrightarrow>
     try_enroll client course uid s =
       s\<lparr>client_state := c,
         trace := trace s @ [CallAddUserToCourse n course, Print (Enrolled course)]\<rparr>"
  by (simp add: try_enroll_def emit_def)

lemma try_enroll_counts [simp]:
  "created_count (try_enroll client course uid s) = created_count s"
  "skipped_count (try_enroll client course uid s) = skipped_count s"
  "error_count (try_enroll client course uid s) = error_count s"
  by (simp_all add: try_enroll_def Let_def split: sum.splits prod.splits)

lemma try_enroll_trace:
  "\<exists>evs. trace (try_enroll client course uid s) = trace s @ evs \<and> create_calls evs = []
     \<and> ((\<exists>n k. (n, k) \<in> set (enroll_calls evs)) \<longleftrightarrow> truthy_value uid \<and> (\<exists>n. py_int uid = Inr n))
     \<and> enroll_calls evs = (if truthy_value uid then (case py_int uid of Inl e \<Rightarrow> [] | Inr n \<Rightarrow> [(n, course)]) else [])"
  by (auto simp: try_enroll_def Let_def split: sum.splits prod.splits)

text \<open>The outer try, case by case.\<close>

lemma try_create_raises:
  "create_user client (creation_args w addr) (client_state s) = (Inl e, c) \<Longrightarrow>
     try_create client course w addr s =
       s\<lparr>error_count := error_count s + 1, client_state := c,
         trace := trace s @ [Print (Creating (worker_full_name w) addr),
                             CallCreateUser (creation_args w addr),
                             Print (ErrorCreating e)]\<rparr>"
  by (simp add: try_create_def emit_def)

lemma try_create_ok:
  "create_user client (creation_args w addr) (client_state s) = (Inr created, c) \<Longrightarrow>
     try_create client course w addr s =
       (try_enroll client course (dict_get created ''id'')
          (s\<lparr>client_state := c,
             trace := trace s @ [Print (Creating (worker_full_name w) addr),
                                 CallCreateUser (creation_args w addr),
                                 Print (CreatedUserId (dict_get created ''id''))]\<rparr>))
       \<lparr>created_count := created_count s + 1\<rparr>"
  by (simp add: try_create_def emit_def Let_def)

lemma sync_worker_no_email:
  "\<not> truthy (get_work_email w) \<Longrightarrow>
     sync_worker client course existing w s =
       s\<lparr>skipped_count := skipped_count s + 1,
         trace := trace s @ [Print (NoWorkEmail (worker_full_name w))]\<rparr>"
  by (simp add: sync_worker_def emit_def)

lemma sync_worker_existing:
  "truthy (get_work_email w) \<Longrightarrow> py_lower (py_strip (the (get_work_email w))) \<in> existing \<Longrightarrow>
     sync_worker client course existing w s =
       s\<lparr>skipped_count := skipped_count s + 1,
         trace := trace s @ [Print (AlreadyHasAccount (worker_full_name w) (the (get_work_email w)))]\<rparr>"
  by (simp add: sync_worker_def emit_def)

lemma sync_worker_create:
  "needs_account existing w \<Longrightarrow>
     sync_worker client course existing w s = try_create client course w (the (get_work_email w)) s"
  by (simp add: sync_worker_def needs_account_def)

lemma sync_loop_Cons:
  "sync_loop client course existing (w # rest) s =
     sync_loop client course existing rest (sync_worker client course existing w s)"
  by (simp add: sync_loop_def)

lemma sync_loop_Nil: "sync_loop client course existing [] s = s"
  by (simp add: sync_loop_def)

lemma sync_worker_cases:
  obtains (no_email) "\<not> truthy (get_work_email w)"
  | (has_account) "truthy (get_work_email w)"
      "py_lower (py_strip (the (get_work_email w))) \<in> existing"
  | (raises) e c where "needs_account existing w"
      "create_user client (creation_args w (the (get_work_email w))) (client_state s) = (Inl e, c)"
  | (created) d c where "needs_account existing w"
      "create_user client (creation_args w (the (get_work_email w))) (client_state s) = (Inr d, c)"
proof (cases "needs_account existing w")
  case True
  obtain r c where rc:
    "create_user client (creation_args w (the (get_work_email w))) (client_state s) = (r, c)"
    by (cases "create_user client (creation_args w (the (get_work_email w))) (client_state s)")
  show ?thesis
  proof (cases r)
    case (Inl e)
    with True rc show ?thesis by (auto intro: raises)
  next
    case (Inr d)
    with True rc show ?thesis by (auto intro: created)
  qed
next
  case False
  then show ?thesis by (auto simp: needs_account_def intro: no_email has_account)
qed

lemma sync_worker_counted_once:
  "counted_once s (sync_worker client course existing w s)"
proof (cases rule: sync_worker_cases [where w = w and existing = existing and client = client and s = s])
  case no_email
  then show ?thesis by (simp add: sync_worker_no_email counted_once_def)
next
  case has_account
  then show ?thesis by (simp add: sync_worker_existing counted_once_def)
next
  case (raises e c)
  then show ?thesis by (simp add: sync_worker_create try_create_raises counted_once_def)
next
  case (created d c)
  then show ?thesis by (simp add: sync_worker_create try_create_ok counted_once_def)
qed

lemma sync_loop_count:
  "created_count (sync_loop client course existing ws s)
     + skipped_count (sync_loop client course existing ws s)
     + error_count (sync_loop client course existing ws s)
   = created_count s + skipped_count s + error_count s + int (length ws)"
proof (induction ws arbitrary: s)
  case Nil
  then show ?case by (simp add: sync_loop_Nil)
next
  case (Cons w ws)
  have "counted_once s (sync_worker client course existing w s)"
    by (rule sync_worker_counted_once)
  then have "created_count (sync_worker client course existing w s)
     + skipped_count (sync_worker client course existing w s)
     + error_count (sync_worker client course existing w s)
     = created_count s + skipped_count s + error_count s + 1"
    unfolding counted_once_def by linarith
  with Cons.IH [of "sync_worker client course existing w s"] show ?case
    by (simp add: sync_loop_Cons)
qed

lemma sync_workers_to_talentlms_unfold:
  "sync_workers_to_talentlms course ws existing client c0 =
     (let s = sync_loop client course existing ws (initial_state c0)
      in s\<lparr>trace := trace s @ [Print (Summary (int (length ws)) (created_count s)
                                    (skipped_count s) (error_count s))]\<rparr>)"
  by (simp add: sync_workers_to_talentlms_def initial_state_def emit_def Let_def)

text \<open>Creation calls of one iteration.\<close>

lemma sync_worker_trace:
  "\<exists>evs. trace (sync_worker client course existing w s) = trace s @ evs
     \<and> create_calls evs =
         (if needs_account existing w then [creation_args w (the (get_work_email w))] else [])"
proof (cases rule: sync_worker_cases [where w = w and existing = existing and client = client and s = s])
  case no_email
  then show ?thesis by (simp add: sync_worker_no_email needs_account_def)
next
  case has_account
  then show ?thesis by (simp add: sync_worker_existing needs_account_def)
next
  case (raises e c)
  then show ?thesis by (simp add: sync_worker_create try_create_raises)
next
  case (created d c)
  let ?s3 = "s\<lparr>client_state := c,
             trace := trace s @ [Print (Creating (worker_full_name w) (the (get_work_email w))),
                                 CallCreateUser (creation_args w (the (get_work_email w))),
                                 Print (CreatedUserId (dict_get d ''id''))]\<rparr>"
  from try_enroll_trace [of client course "dict_get d ''id''" ?s3]
  obtain evs where "trace (try_enroll client course (dict_get d ''id'') ?s3) = trace ?s3 @ evs"
    "create_calls evs = []"
    by blast
  with created show ?thesis by (simp add: sync_worker_create try_create_ok)
qed

lemma sync_loop_create_calls:
  "create_calls (trace (sync_loop client course existing ws s)) =
     create_calls (trace s) @
     map (\<lambda>w. creation_args w (the (get_work_email w))) (filter (needs_account existing) ws)"
proof (induction ws arbitrary: s)
  case Nil
  then show ?case by (simp add: sync_loop_Nil)
next
  case (Cons w ws)
  from sync_worker_trace [of client course existing w s]
  have "create_calls (trace (sync_worker client course existing w s)) =
      create_calls (trace s) @
        (if needs_account existing w then [creation_args w (the (get_work_email w))] else [])"
    by auto
  with Cons.IH [of "sync_worker client course existing w s"] show ?case
    by (simp add: sync_loop_Cons)
qed

lemma trace_sync_worker_step_events:
  "trace (sync_worker client course existing w s) = trace s @ step_events client course existing w s"
  using sync_worker_trace [of client course existing w s]
  by (auto simp: step_events_def)

lemma step_enroll_calls:
  "enroll_calls (step_events client course existing w s) =
     (if needs_account existing w
      then (case create_user client (creation_args w (the (get_work_email w))) (client_state s) of
              (Inl e, c) \<Rightarrow> []
            | (Inr d, c) \<Rightarrow>
                (if truthy_value (dict_get d ''id'')
                 then (case py_int (dict_get d ''id'') of Inl e \<Rightarrow> [] | Inr n \<Rightarrow> [(n, course)])
                 else []))
      else [])"
proof (cases rule: sync_worker_cases [where w = w and existing = existing and client = client and s = s])
  case no_email
  then show ?thesis by (simp add: step_events_def sync_worker_no_email needs_account_def)
next
  case has_account
  then show ?thesis by (simp add: step_events_def sync_worker_existing needs_account_def)
next
  case (raises e c)
  then show ?thesis by (simp add: step_events_def sync_worker_create try_create_raises)
next
  case (created d c)
  let ?s3 = "s\<lparr>client_state := c,
             trace := trace s @ [Print (Creating (worker_full_name w) (the (get_work_email w))),
                                 CallCreateUser (creation_args w (the (get_work_email w))),
                                 Print (CreatedUserId (dict_get d ''id''))]\<rparr>"
  from try_enroll_trace [of client course "dict_get d ''id''" ?s3]
  obtain evs where "trace (try_enroll client course (dict_get d ''id'') ?s3) = trace ?s3 @ evs"
    "enroll_calls evs = (if truthy_value (dict_get d ''id'')
        then (case py_int (dict_get d ''id'') of Inl e \<Rightarrow> [] | Inr n \<Rightarrow> [(n, course)]) else [])"
    by blast
  with created show ?thesis by (simp add: step_events_def sync_worker_create try_create_ok)
qed

lemma fold_add_user_email:
  "fold add_user_email users A =
     A \<union> {py_lower (py_strip (the (user_email u))) | u. u \<in> set users \<and> truthy (user_email u)}"
proof (induction users arbitrary: A)
  case Nil
  then show ?case by simp
next
  case (Cons u users)
  have "fold add_user_email (u # users) A = fold add_user_email users (add_user_email u A)"
    by simp
  also have "\<dots> = add_user_email u A \<union>
      {py_lower (py_strip (the (user_email u))) | u. u \<in> set users \<and> truthy (user_email u)}"
    by (rule Cons.IH)
  also have "\<dots> = A \<union> {py_lower (py_strip (the (user_email v))) | v.
      v \<in> set (u # users) \<and> truthy (user_email v)}"
    by (cases "truthy (user_email u)") (auto simp: add_user_email_def)
  finally show ?case .
qed

section \<open>Addresses up to blanks and case\<close>

text \<open>
  Stripping an address and lower-casing it decides whether two addresses are the same up
  to blanks at the ends and the case of ASCII letters.
\<close>

lemma dropWhile_all: "list_all P xs \<Longrightarrow> dropWhile P (xs @ ys) = dropWhile P ys"
  by (induction xs) simp_all

lemma dropWhile_none: "t \<noteq> [] \<Longrightarrow> \<not> P (hd t) \<Longrightarrow> dropWhile P (t @ ys) = t @ ys"
  by (cases t) simp_all

lemma py_strip_trimmed: "trimmed s (py_strip s)"
proof -
  let ?m = "dropWhile is_space s"
  let ?t = "rev (dropWhile is_space (rev ?m))"
  let ?post = "rev (takeWhile is_space (rev ?m))"
  have m: "?m = ?t @ ?post"
  proof -
    have "rev ?m = takeWhile is_space (rev ?m) @ dropWhile is_space (rev ?m)" by simp
    then have "rev (rev ?m) = rev (takeWhile is_space (rev ?m) @ dropWhile is_space (rev ?m))"
      by (rule arg_cong)
    then show ?thesis by (simp only: rev_rev_ident rev_append)
  qed
  have "s = takeWhile is_space s @ ?m" by simp
  with m have s: "s = takeWhile is_space s @ ?t @ ?post" by simp
  have pre: "list_all is_space (takeWhile is_space s)"
    by (simp add: list_all_iff) (meson set_takeWhileD)
  have post: "list_all is_space ?post"
    by (simp add: list_all_iff) (meson set_takeWhileD)
  have ends: "\<not> is_space (hd ?t) \<and> \<not> is_space (last ?t)" if "?t \<noteq> []"
  proof
    from that have ne: "dropWhile is_space (rev ?m) \<noteq> []" by simp
    from that m have "hd ?t = hd ?m" by (metis hd_append2)
    moreover have "?m \<noteq> []"
    proof
      assume "?m = []"
      then have "?t = rev (dropWhile is_space (rev []))" by (simp only:)
      with that show False by simp
    qed
    ultimately show "\<not> is_space (hd ?t)" by (simp add: hd_dropWhile)
    from ne show "\<not> is_space (last ?t)" by (simp add: last_rev hd_dropWhile)
  qed
  from s pre post ends show ?thesis
    unfolding trimmed_def py_strip_def by blast
qed

lemma trimmed_py_strip:
  assumes "trimmed s t"
  shows "t = py_strip s"
proof -
  from assms obtain pre post where s: "s = pre @ t @ post"
    and pre: "list_all is_space pre" and post: "list_all is_space post"
    and t: "t = [] \<or> (\<not> is_space (hd t) \<and> \<not> is_space (last t))"
    unfolding trimmed_def by blast
  show ?thesis
  proof (cases "t = []")
    case True
    from pre post have "\<forall>x \<in> set (pre @ [] @ post). is_space x"
      by (auto simp: list_all_iff)
    then have "dropWhile is_space (pre @ [] @ post) = []"
      by (simp only: dropWhile_eq_Nil_conv)
    with s True have "dropWhile is_space s = []" by (simp only:)
    then have "py_strip s = rev (dropWhile is_space (rev []))"
      unfolding py_strip_def by (simp only:)
    with True show ?thesis by simp
  next
    case False
    with t have h: "\<not> is_space (hd t)" and l: "\<not> is_space (last t)" by simp_all
    from s pre have "dropWhile is_space s = dropWhile is_space (t @ post)"
      by (simp add: dropWhile_all)
    also from False h have "\<dots> = t @ post" by (rule dropWhile_none)
    finally have 1: "dropWhile is_space s = t @ post" .
    from post have "list_all is_space (rev post)" by (simp add: list_all_iff)
    then have "dropWhile is_space (rev post @ rev t) = dropWhile is_space (rev t)"
      by (rule dropWhile_all)
    also from False l have "dropWhile is_space (rev t @ []) = rev t @ []"
      by (intro dropWhile_none) (simp_all add: hd_rev)
    then have "dropWhile is_space (rev t) = rev t" by simp
    finally have "dropWhile is_space (rev (t @ post)) = rev t" by simp
    with 1 show ?thesis by (simp add: py_strip_def)
  qed
qed

lemma trimmed_iff: "trimmed s t \<longleftrightarrow> t = py_strip s"
  using py_strip_trimmed trimmed_py_strip by blast

lemma of_char_lower_char:
  "(of_char (lower_char c) :: nat) =
     (if 65 \<le> (of_char c :: nat) \<and> (of_char c :: nat) \<le> 90 then of_char c + 32 else of_char c)"
  by (simp add: lower_char_def)

lemma lower_char_eq_iff: "lower_char c = lower_char d \<longleftrightarrow> same_letter c d"
proof -
  have "lower_char c = lower_char d \<longleftrightarrow>
      (of_char (lower_char c) :: nat) = of_char (lower_char d)"
    by simp
  also have "\<dots> \<longleftrightarrow> same_letter c d"
  proof -
    have "c = d \<longleftrightarrow> (of_char c :: nat) = of_char d" by simp
    then show ?thesis
      unfolding of_char_lower_char same_letter_def by (auto split: if_splits)
  qed
  finally show ?thesis .
qed

lemma py_lower_eq_iff: "py_lower a = py_lower b \<longleftrightarrow> list_all2 same_letter a b"
proof (induction a arbitrary: b)
  case Nil
  then show ?case by (simp add: py_lower_def)
next
  case (Cons x a)
  then show ?case by (cases b) (simp_all add: py_lower_def lower_char_eq_iff)
qed

lemma same_address_iff:
  "same_address a b \<longleftrightarrow> py_lower (py_strip a) = py_lower (py_strip b)"
  by (simp add: same_address_def trimmed_iff py_lower_eq_iff)

lemma truthy_Some: "truthy (Some e) \<longleftrightarrow> e \<noteq> []"
  by (cases e) simp_all

lemma has_account_forms:
  "has_account users addr \<longleftrightarrow>
     (\<exists>u \<in> set users. truthy (user_email u) \<and>
        py_lower (py_strip addr) = py_lower (py_strip (the (user_email u))))"
proof -
  have "(case user_email u of None \<Rightarrow> False | Some e \<Rightarrow> e \<noteq> [] \<and> same_address addr e)
      \<longleftrightarrow> truthy (user_email u)
          \<and> py_lower (py_strip addr) = py_lower (py_strip (the (user_email u)))"
    for u :: lms_user
    by (cases "user_email u") (simp_all add: truthy_Some same_address_iff)
  then show ?thesis by (simp add: has_account_def list_ex_iff)
qed

lemma has_account_iff:
  "has_account users addr \<longleftrightarrow> py_lower (py_strip addr) \<in> get_all_talentlms_emails users"
  unfolding has_account_forms get_all_talentlms_emails_def fold_add_user_email by auto

section \<open>The claims\<close>

text \<open>
  \<^bold>\<open>Claim C1\<close> (as amended). Take a worker list in which no record is repeated, no two
  records share a truthy identifier and the manager-reference graph is acyclic, a manager
  id, and the number \<open>limit\<close> of nested calls that the interpreter allows the collector. A
  record whose identifier is missing or empty counts as a record without identifier: it is
  listed, and nothing is listed below it.
  \<^item> When a chain of \<open>limit\<close> manager references leads to the manager id, the hierarchy is
    too deep and the collector raises \<^verbatim>\<open>RecursionError\<close>.
  \<^item> Otherwise the collector returns, and what it returns is the depth-first pre-order
    listing of the transitive reports of that manager: its elements are exactly the
    transitive reports (direct and indirect); each of them appears once; each report with
    a truthy identifier is followed at once by the listing of its own subtree, which holds
    exactly its own reports, so a report appears before its own reports; and the listed
    workers of one direct-report list of the manager map appear in the order of that list.
  The hierarchy builder is not part of the synchronisation script; it is modelled from the
  specification.
\<close>

theorem collector_preorder:
  assumes "acyclic (manager_edges workers)" and "unique_idents workers"
  shows "(too_deep workers limit manager_id \<longrightarrow>
            get_all_reports_under_manager limit workers manager_id = Inl RecursionError)
       \<and> (\<not> too_deep workers limit manager_id \<longrightarrow>
            (\<exists>rs. get_all_reports_under_manager limit workers manager_id = Inr rs
               \<and> set rs = reports_under workers manager_id
               \<and> distinct rs
               \<and> (\<forall>pre r post. rs = pre @ r # post \<and> truthy (worker_ident r) \<longrightarrow>
                     (\<exists>sub rest. post = sub @ rest
                        \<and> get_all_reports_under_manager limit workers (the (worker_ident r))
                            = Inr sub
                        \<and> set sub = reports_under workers (the (worker_ident r))))
               \<and> (\<forall>m. (\<exists>w \<in> set rs. w \<in> set (get_default (fst (build_org_hierarchy workers)) m))
                     \<longrightarrow> filter (\<lambda>v. v \<in> set (get_default (fst (build_org_hierarchy workers)) m)) rs
                           = get_default (fst (build_org_hierarchy workers)) m)))"
proof (intro conjI impI)
  assume "too_deep workers limit manager_id"
  then show "get_all_reports_under_manager limit workers manager_id = Inl RecursionError"
    by (simp add: collector_raises_iff)
next
  let ?mm = "fst (build_org_hierarchy workers)"
  assume shallow: "\<not> too_deep workers limit manager_id"
  from collect_reports_listing [OF assms shallow]
  obtain rs where rs: "collect_reports limit ?mm manager_id = Inr rs"
    and l: "subtree_listing limit workers manager_id rs"
    by blast
  from l have set_rs: "set rs = reports_under workers manager_id" and "distinct rs"
    and order: "\<forall>m. (\<exists>w \<in> set rs. filed_under workers w = Some m) \<longrightarrow>
           filter (\<lambda>v. filed_under workers v = Some m) rs = direct_reports_of workers m"
    by (simp_all add: subtree_listing_def)
  have sub: "\<exists>sub rest. post = sub @ rest
        \<and> get_all_reports_under_manager limit workers (the (worker_ident r)) = Inr sub
        \<and> set sub = reports_under workers (the (worker_ident r))"
    if "rs = pre @ r # post" "truthy (worker_ident r)" for pre r post
  proof -
    from l that obtain sub rest where s: "post = sub @ rest"
      "collect_reports limit ?mm (the (worker_ident r)) = Inr sub"
      unfolding subtree_listing_def by blast
    from s(2) have "\<not> too_deep workers limit (the (worker_ident r))"
      by (simp flip: collect_reports_raises_iff)
    from collect_reports_listing [OF assms this] s(2)
    have "set sub = reports_under workers (the (worker_ident r))"
      by (auto simp: subtree_listing_def)
    with s show ?thesis by (auto simp: get_all_reports_under_manager_eq)
  qed
  have lists: "filter (\<lambda>v. v \<in> set (get_default ?mm m)) rs = get_default ?mm m"
    if "\<exists>w \<in> set rs. w \<in> set (get_default ?mm m)" for m
  proof -
    have in_list: "v \<in> set (get_default ?mm m) \<longleftrightarrow> filed_under workers v = Some m"
      if "v \<in> set rs" for v
      using that set_rs
      by (auto simp: build_org_hierarchy_get_default set_direct_reports_of reports_under_def)
    from that in_list have "\<exists>w \<in> set rs. filed_under workers w = Some m" by blast
    with order have "filter (\<lambda>v. filed_under workers v = Some m) rs = direct_reports_of workers m"
      by blast
    moreover have "filter (\<lambda>v. v \<in> set (get_default ?mm m)) rs
        = filter (\<lambda>v. filed_under workers v = Some m) rs"
      by (rule filter_cong [OF refl]) (rule in_list)
    ultimately show ?thesis by (simp add: build_org_hierarchy_get_default)
  qed
  from rs set_rs \<open>distinct rs\<close> sub lists
  show "\<exists>rs. get_all_reports_under_manager limit workers manager_id = Inr rs
               \<and> set rs = reports_under workers manager_id
               \<and> distinct rs
               \<and> (\<forall>pre r post. rs = pre @ r # post \<and> truthy (worker_ident r) \<longrightarrow>
                     (\<exists>sub rest. post = sub @ rest
                        \<and> get_all_reports_under_manager limit workers (the (worker_ident r))
                            = Inr sub
                        \<and> set sub = reports_under workers (the (worker_ident r))))
               \<and> (\<forall>m. (\<exists>w \<in> set rs. w \<in> set (get_default ?mm m))
                     \<longrightarrow> filter (\<lambda>v. v \<in> set (get_default ?mm m)) rs = get_default ?mm m)"
    unfolding get_all_reports_under_manager_eq by blast
qed

text \<open>
  The specification's scenario is an instance: for workers 1, 2 (under 1) and 3 (under 2)
  and 900 nested calls allowed, the collector returns 2, then 3, for the manager id 1, and
  these are the reports under 1. With two nested calls allowed the call for worker 3 is
  one too many.
\<close>

theorem collector_preorder_witness:
  "acyclic (manager_edges scenario_workers) \<and> unique_idents scenario_workers
   \<and> \<not> too_deep scenario_workers 900 ''1''
   \<and> get_all_reports_under_manager 900 scenario_workers ''1''
       = Inr [mk_worker ''2'' (Some ''1''), mk_worker ''3'' (Some ''2'')]
   \<and> reports_under scenario_workers ''1''
       = {mk_worker ''2'' (Some ''1''), mk_worker ''3'' (Some ''2'')}
   \<and> too_deep scenario_workers 2 ''1''
   \<and> get_all_reports_under_manager 2 scenario_workers ''1'' = Inl RecursionError"
proof -
  note th = collector_preorder [OF scenario_acyclic scenario_unique, of 900 "''1''"]
  from th scenario_not_too_deep
  obtain rs where "get_all_reports_under_manager 900 scenario_workers ''1'' = Inr rs"
    "set rs = reports_under scenario_workers ''1''"
    by blast
  with scenario_result have 1: "reports_under scenario_workers ''1''
       = {mk_worker ''2'' (Some ''1''), mk_worker ''3'' (Some ''2'')}"
    by auto
  from collector_preorder [OF scenario_acyclic scenario_unique, of 2 "''1''"] scenario_too_deep
  have 2: "get_all_reports_under_manager 2 scenario_workers ''1'' = Inl RecursionError"
    by blast
  from scenario_acyclic scenario_unique scenario_not_too_deep scenario_result 1
    scenario_too_deep 2
  show ?thesis by blast
qed

text \<open>
  Acyclicity alone is not enough. When two records carry the identifier 2, worker 3, who
  reports to 2, is listed under each of them: the collector returns it twice. And in the
  scenario, which is acyclic and has no shared identifier, the collector raises
  \<^verbatim>\<open>RecursionError\<close> when the interpreter allows it two nested calls.
\<close>

theorem collector_shared_id_counterexample:
  "acyclic (manager_edges shared_id_workers)
   \<and> get_all_reports_under_manager 900 shared_id_workers ''1''
       = Inr [mk_worker ''2'' (Some ''1''), mk_worker ''3'' (Some ''2''),
              (mk_worker ''2'' (Some ''1''))\<lparr>display_name := ''B''\<rparr>, mk_worker ''3'' (Some ''2'')]
   \<and> \<not> distinct [mk_worker ''2'' (Some ''1''), mk_worker ''3'' (Some ''2''),
              (mk_worker ''2'' (Some ''1''))\<lparr>display_name := ''B''\<rparr>, mk_worker ''3'' (Some ''2'')]
   \<and> acyclic (manager_edges scenario_workers)
   \<and> get_all_reports_under_manager 2 scenario_workers ''1'' = Inl RecursionError"
proof -
  have "manager_edges shared_id_workers = {(''2'', ''1''), (''3'', ''2'')}"
    by (simp add: manager_edges_def manager_edge_list_def shared_id_workers_def
        filed_under_def resolves_def example_simps)
  then have "acyclic (manager_edges shared_id_workers)"
    by (simp only:) (rule wf_acyclic, simp add: rtrancl_insert)
  moreover have "get_all_reports_under_manager 900 shared_id_workers ''1''
       = Inr [mk_worker ''2'' (Some ''1''), mk_worker ''3'' (Some ''2''),
              (mk_worker ''2'' (Some ''1''))\<lparr>display_name := ''B''\<rparr>, mk_worker ''3'' (Some ''2'')]"
    by (simp add: collect_simps shared_id_workers_def filed_under_def resolves_def example_simps)
  moreover have "get_all_reports_under_manager 2 scenario_workers ''1'' = Inl RecursionError"
    by (simp add: collector_raises_iff scenario_too_deep)
  ultimately show ?thesis using scenario_acyclic by simp
qed

text \<open>
  \<^bold>\<open>Claim C2\<close> (as amended). When a manager filter is requested, resolves to a worker
  with a truthy identifier, and the collector returns for that identifier, the pipeline
  returns the active workers that occur in the collector's output: first the workers whose
  status is active, then of those the ones that are members of the output. The result is the
  intersection of the two as a set, and a subsequence of the active workers, so their
  relative order is kept. Membership is equality of records by content, as Python's
  \<^verbatim>\<open>in\<close> on a list of dictionaries decides it: a record matches a record with the same
  content, whichever object holds it. It is the same as matching by identifier when no two
  records of the worker list share an identifier and every record has one.
\<close>

theorem manager_filter_by_content:
  assumes "truthy manager_identifier"
    and "find_worker workers (the manager_identifier) = Some manager_worker"
    and "truthy (worker_ident manager_worker)"
    and "get_all_reports_under_manager limit workers (the (worker_ident manager_worker))
           = Inr manager_reports"
  shows "\<exists>result.
           get_active_adp_workers find_worker limit workers manager_identifier = Returned result
           \<and> result = filter (\<lambda>w. w \<in> set manager_reports) (filter is_active_worker workers)
           \<and> set result = set (filter is_active_worker workers) \<inter> set manager_reports
           \<and> subseq result (filter is_active_worker workers)
           \<and> (unique_idents workers \<and> (\<forall>w \<in> set workers. truthy (worker_ident w)) \<longrightarrow>
                result = filter (\<lambda>w. worker_ident w \<in> worker_ident ` set manager_reports)
                           (filter is_active_worker workers))"
proof -
  let ?active = "filter is_active_worker workers"
  let ?result = "filter (\<lambda>w. w \<in> set manager_reports) ?active"
  have "get_active_adp_workers find_worker limit workers manager_identifier = Returned ?result"
    using assms by (simp add: get_active_adp_workers_def Let_def del: filter_filter)
  moreover have "set ?result = set ?active \<inter> set manager_reports" by auto
  moreover have "subseq ?result ?active" by (rule subseq_filter_left)
  moreover have "?result = filter (\<lambda>w. worker_ident w \<in> worker_ident ` set manager_reports) ?active"
    if "unique_idents workers \<and> (\<forall>w \<in> set workers. truthy (worker_ident w))"
  proof (rule filter_cong [OF refl])
    fix w assume "w \<in> set ?active"
    then have "w \<in> set workers" by simp
    with that same_ident_in_reports [OF _ get_all_reports_subset [OF assms(4)], of w]
    show "(w \<in> set manager_reports) = (worker_ident w \<in> worker_ident ` set manager_reports)"
      by blast
  qed
  ultimately show ?thesis by blast
qed

text \<open>
  An instance: in the scenario with worker 2 inactive, the filter for manager 1 leaves
  worker 3.
\<close>

theorem manager_filter_by_content_witness:
  "unique_idents one_inactive_workers
   \<and> list_all (\<lambda>w. truthy (worker_ident w)) one_inactive_workers
   \<and> get_active_adp_workers find_by_id_or_email 900 one_inactive_workers (Some ''1'')
       = Returned [mk_worker ''3'' (Some ''2'')]
   \<and> filter (\<lambda>w. worker_ident w \<in> worker_ident `
           set [(mk_worker ''2'' (Some ''1''))\<lparr>worker_status := Inactive\<rparr>,
                mk_worker ''3'' (Some ''2'')])
         (filter is_active_worker one_inactive_workers)
       = [mk_worker ''3'' (Some ''2'')]"
proof -
  let ?reports = "[(mk_worker ''2'' (Some ''1''))\<lparr>worker_status := Inactive\<rparr>,
                   mk_worker ''3'' (Some ''2'')]"
  have f: "find_by_id_or_email one_inactive_workers (the (Some ''1'')) = Some (mk_worker ''1'' None)"
    by (simp add: find_by_id_or_email_def one_inactive_workers_def example_simps)
  have i: "truthy (worker_ident (mk_worker ''1'' None))"
    by (simp add: example_simps)
  have g: "get_all_reports_under_manager 900 one_inactive_workers
        (the (worker_ident (mk_worker ''1'' None))) = Inr ?reports"
    by (simp add: collect_simps one_inactive_workers_def filed_under_def resolves_def
        example_simps)
  have t: "truthy (Some ''1'')" by simp
  have u: "unique_idents one_inactive_workers"
    by (simp add: unique_idents_def one_inactive_workers_def example_simps)
  have a: "list_all (\<lambda>w. truthy (worker_ident w)) one_inactive_workers"
    by (simp add: one_inactive_workers_def example_simps)
  then have a': "\<forall>w \<in> set one_inactive_workers. truthy (worker_ident w)"
    by (simp add: list_all_iff)
  from manager_filter_by_content
    [where find_worker = find_by_id_or_email and workers = one_inactive_workers, OF t f i g]
    u a'
  obtain result where r:
    "get_active_adp_workers find_by_id_or_email 900 one_inactive_workers (Some ''1'')
       = Returned result"
    "result = filter (\<lambda>w. w \<in> set ?reports) (filter is_active_worker one_inactive_workers)"
    "result = filter (\<lambda>w. worker_ident w \<in> worker_ident ` set ?reports)
                (filter is_active_worker one_inactive_workers)"
    by blast
  from r(2) have v: "result = [mk_worker ''3'' (Some ''2'')]"
    by (simp add: one_inactive_workers_def example_simps)
  from r(3) [symmetric] v
  have k: "filter (\<lambda>w. worker_ident w \<in> worker_ident ` set ?reports)
      (filter is_active_worker one_inactive_workers) = [mk_worker ''3'' (Some ''2'')]"
    by (rule trans)
  from r(1) v
  have "get_active_adp_workers find_by_id_or_email 900 one_inactive_workers (Some ''1'')
      = Returned [mk_worker ''3'' (Some ''2'')]"
    by (simp only:)
  with u a k show ?thesis by (intro conjI)
qed

text \<open>
  Records that differ in content do not match, also when they carry the same identifier:
  the inactive record of worker 2 is under manager 1, the active record of worker 2 is in
  the worker list, and the filter for manager 1 returns nothing.
\<close>

theorem same_id_not_matched_counterexample:
  "get_active_adp_workers find_by_id_or_email 900 former_and_current (Some ''1'') = Returned []
   \<and> get_all_reports_under_manager 900 former_and_current ''1''
       = Inr [(mk_worker ''2'' (Some ''1''))\<lparr>worker_status := Inactive\<rparr>]
   \<and> mk_worker ''2'' None \<in> set (filter is_active_worker former_and_current)
   \<and> worker_ident (mk_worker ''2'' None)
       = worker_ident ((mk_worker ''2'' (Some ''1''))\<lparr>worker_status := Inactive\<rparr>)"
proof -
  have g: "get_all_reports_under_manager 900 former_and_current ''1''
       = Inr [(mk_worker ''2'' (Some ''1''))\<lparr>worker_status := Inactive\<rparr>]"
    by (simp add: collect_simps former_and_current_def filed_under_def resolves_def
        example_simps)
  have f: "find_by_id_or_email former_and_current ''1'' = Some (mk_worker ''1'' None)"
    by (simp add: find_by_id_or_email_def former_and_current_def example_simps)
  have i: "worker_ident (mk_worker ''1'' None) = Some ''1''"
    by (simp add: example_simps)
  have "get_active_adp_workers find_by_id_or_email 900 former_and_current (Some ''1'')
      = Returned (filter (\<lambda>w. w \<in> set [(mk_worker ''2'' (Some ''1''))\<lparr>worker_status := Inactive\<rparr>])
           (filter is_active_worker former_and_current))"
    by (simp add: get_active_adp_workers_def f g i Let_def del: filter_filter)
  also have "filter (\<lambda>w. w \<in> set [(mk_worker ''2'' (Some ''1''))\<lparr>worker_status := Inactive\<rparr>])
           (filter is_active_worker former_and_current) = []"
    by (simp add: former_and_current_def example_simps)
  finally have "get_active_adp_workers find_by_id_or_email 900 former_and_current (Some ''1'')
      = Returned []" .
  with g show ?thesis by (simp add: former_and_current_def example_simps)
qed

text \<open>
  \<^bold>\<open>Claim C3\<close>. For a worker with a truthy work e-mail, the reconciliation loop skips
  the worker as one who already has an account exactly when some account has a truthy
  stored e-mail that is the same address up to blanks at its ends and the case of ASCII
  letters; otherwise it goes on to create the account. That is the case exactly when the
  stripped, lower-cased form of the work e-mail equals the stripped, lower-cased form of
  the stored e-mail of some user, which is the membership test of the loop on the set
  that \<^verbatim>\<open>get_all_talentlms_emails\<close> built.
\<close>

theorem account_email_membership:
  assumes "get_work_email w = Some addr" and "addr \<noteq> []"
  shows "sync_worker client course (get_all_talentlms_emails users) w s =
           (if has_account users addr
            then s\<lparr>skipped_count := skipped_count s + 1,
                   trace := trace s @ [Print (AlreadyHasAccount (worker_full_name w) addr)]\<rparr>
            else try_create client course w addr s)
       \<and> (has_account users addr \<longleftrightarrow>
            py_lower (py_strip addr) \<in> get_all_talentlms_emails users)
       \<and> (has_account users addr \<longleftrightarrow>
            (\<exists>u \<in> set users. truthy (user_email u) \<and>
               py_lower (py_strip addr) = py_lower (py_strip (the (user_email u)))))"
proof (intro conjI)
  from assms have t: "truthy (get_work_email w)" by (simp add: truthy_Some)
  show "sync_worker client course (get_all_talentlms_emails users) w s =
           (if has_account users addr
            then s\<lparr>skipped_count := skipped_count s + 1,
                   trace := trace s @ [Print (AlreadyHasAccount (worker_full_name w) addr)]\<rparr>
            else try_create client course w addr s)"
  proof (cases "has_account users addr")
    case True
    with assms(1) have "py_lower (py_strip (the (get_work_email w)))
        \<in> get_all_talentlms_emails users"
      by (simp add: has_account_iff)
    from sync_worker_existing [OF t this] True assms(1) show ?thesis by simp
  next
    case False
    with assms(1) t have "needs_account (get_all_talentlms_emails users) w"
      by (simp add: needs_account_def has_account_iff)
    from sync_worker_create [OF this] False assms(1) show ?thesis by simp
  qed
  show "has_account users addr \<longleftrightarrow> py_lower (py_strip addr) \<in> get_all_talentlms_emails users"
    by (rule has_account_iff)
  show "has_account users addr \<longleftrightarrow>
      (\<exists>u \<in> set users. truthy (user_email u) \<and>
         py_lower (py_strip addr) = py_lower (py_strip (the (user_email u))))"
    by (rule has_account_forms)
qed

text \<open>
  The specification's example: the worker with the work e-mail \<^verbatim>\<open>" Jane@X.com "\<close> is
  skipped when \<^verbatim>\<open>"jane@x.com"\<close> is stored. A worker with another address is not: the
  account is created and the worker enrolled.
\<close>

theorem account_email_membership_witness:
  "get_work_email (mk_employee ''6'' None '' Jane@X.com '') = Some '' Jane@X.com ''
   \<and> has_account [\<lparr>user_email = Some ''jane@x.com''\<rparr>] '' Jane@X.com ''
   \<and> sync_worker scripted_client 7 (get_all_talentlms_emails [\<lparr>user_email = Some ''jane@x.com''\<rparr>])
         (mk_employee ''6'' None '' Jane@X.com '') (initial_state 0)
       = \<lparr>created_count = 0, skipped_count = 1, error_count = 0, client_state = 0,
          trace = [Print (AlreadyHasAccount [] '' Jane@X.com '')]\<rparr>
   \<and> \<not> has_account [\<lparr>user_email = Some ''jane@x.com''\<rparr>] ''joan@x.com''
   \<and> sync_worker scripted_client 7 (get_all_talentlms_emails [\<lparr>user_email = Some ''jane@x.com''\<rparr>])
         (mk_employee ''6'' None ''joan@x.com'') (initial_state 0)
       = \<lparr>created_count = 1, skipped_count = 0, error_count = 0, client_state = 1,
          trace = [Print (Creating [] ''joan@x.com''),
                   CallCreateUser \<lparr>first_name = ''Unknown'', last_name = ''User'',
                      email = ''joan@x.com'', login = ''joan@x.com'',
                      password = ''Testpassword1''\<rparr>,
                   Print (CreatedUserId (PyInt 1)),
                   CallAddUserToCourse 1 7,
                   Print (EnrollmentFailed (ClientError ''course closed''))]\<rparr>"
proof -
  let ?users = "[\<lparr>user_email = Some ''jane@x.com''\<rparr>]"
  let ?w = "mk_employee ''6'' None '' Jane@X.com ''"
  let ?v = "mk_employee ''6'' None ''joan@x.com''"
  let ?s = "initial_state (0::nat)"
  have gw: "get_work_email ?w = Some '' Jane@X.com ''" by (simp add: example_simps)
  have gv: "get_work_email ?v = Some ''joan@x.com''" by (simp add: example_simps)
  have e1: "py_lower (py_strip '' Jane@X.com '') = ''jane@x.com''" by code_simp
  have e2: "py_lower (py_strip ''jane@x.com'') = ''jane@x.com''" by code_simp
  have e3: "py_lower (py_strip ''joan@x.com'') = ''joan@x.com''" by code_simp
  note thw = account_email_membership [OF gw, of scripted_client 7 ?users ?s]
  note thv = account_email_membership [OF gv, of scripted_client 7 ?users ?s]
  from thw [THEN conjunct2, THEN conjunct2] e1 e2
  have hw: "has_account ?users '' Jane@X.com ''" by simp
  from thv [THEN conjunct2, THEN conjunct2] e2 e3
  have hv: "\<not> has_account ?users ''joan@x.com''" by simp
  from thw [THEN conjunct1] hw have 1: "sync_worker scripted_client 7 (get_all_talentlms_emails ?users) ?w ?s
       = \<lparr>created_count = 0, skipped_count = 1, error_count = 0, client_state = 0,
          trace = [Print (AlreadyHasAccount [] '' Jane@X.com '')]\<rparr>"
    by (simp add: example_simps)
  from thv [THEN conjunct1] hv
  have "sync_worker scripted_client 7 (get_all_talentlms_emails ?users) ?v ?s
       = try_create scripted_client 7 ?v ''joan@x.com'' ?s"
    by simp
  also have "\<dots> = \<lparr>created_count = 1, skipped_count = 0, error_count = 0, client_state = 1,
          trace = [Print (Creating [] ''joan@x.com''),
                   CallCreateUser \<lparr>first_name = ''Unknown'', last_name = ''User'',
                      email = ''joan@x.com'', login = ''joan@x.com'',
                      password = ''Testpassword1''\<rparr>,
                   Print (CreatedUserId (PyInt 1)),
                   CallAddUserToCourse 1 7,
                   Print (EnrollmentFailed (ClientError ''course closed''))]\<rparr>"
    by (simp add: try_create_def try_enroll_def Let_def dict_get_def example_simps)
  finally have 2: "sync_worker scripted_client 7 (get_all_talentlms_emails ?users) ?v ?s
       = \<lparr>created_count = 1, skipped_count = 0, error_count = 0, client_state = 1,
          trace = [Print (Creating [] ''joan@x.com''),
                   CallCreateUser \<lparr>first_name = ''Unknown'', last_name = ''User'',
                      email = ''joan@x.com'', login = ''joan@x.com'',
                      password = ''Testpassword1''\<rparr>,
                   Print (CreatedUserId (PyInt 1)),
                   CallAddUserToCourse 1 7,
                   Print (EnrollmentFailed (ClientError ''course closed''))]\<rparr>" .
  from gw hw 1 hv 2 show ?thesis by (intro conjI)
qed

text \<open>
  \<^bold>\<open>Claim C4\<close>. A worker without a contact entry tagged \<^verbatim>\<open>work\<close> has no work e-mail,
  and for a worker without a truthy work e-mail the iteration only raises the skip counter
  by one and prints one line: the other counters and the service are unchanged and the
  trace has no call. The loop goes on with the next worker from that state, and the loop
  over no worker leaves the state as it is.
\<close>

theorem no_work_email_skipped:
  "(''work'' \<notin> fst ` set (contact_emails w) \<longrightarrow> get_work_email w = None)
   \<and> (\<not> truthy (get_work_email w) \<longrightarrow>
        sync_worker client course existing w s =
          s\<lparr>skipped_count := skipped_count s + 1,
            trace := trace s @ [Print (NoWorkEmail (worker_full_name w))]\<rparr>
        \<and> sync_loop client course existing (w # rest) s =
            sync_loop client course existing rest
              (s\<lparr>skipped_count := skipped_count s + 1,
                 trace := trace s @ [Print (NoWorkEmail (worker_full_name w))]\<rparr>))
   \<and> sync_loop client course existing [] s = s"
proof (intro conjI impI)
  assume "''work'' \<notin> fst ` set (contact_emails w)"
  then show "get_work_email w = None"
    by (simp add: get_work_email_def map_of_eq_None_iff)
next
  assume "\<not> truthy (get_work_email w)"
  then show "sync_worker client course existing w s =
          s\<lparr>skipped_count := skipped_count s + 1,
            trace := trace s @ [Print (NoWorkEmail (worker_full_name w))]\<rparr>"
    by (rule sync_worker_no_email)
next
  assume "\<not> truthy (get_work_email w)"
  then show "sync_loop client course existing (w # rest) s =
          sync_loop client course existing rest
            (s\<lparr>skipped_count := skipped_count s + 1,
               trace := trace s @ [Print (NoWorkEmail (worker_full_name w))]\<rparr>)"
    by (simp add: sync_loop_Cons sync_worker_no_email)
next
  show "sync_loop client course existing [] s = s" by (rule sync_loop_Nil)
qed

text \<open>
  An instance: a worker without e-mail is skipped, and the loop goes on to the next
  worker, whose creation call the service refuses. The run ends with one worker skipped,
  one error and the one creation call for the second worker.
\<close>

theorem no_work_email_skipped_witness:
  "''work'' \<notin> fst ` set (contact_emails (mk_worker ''5'' None))
   \<and> \<not> truthy (get_work_email (mk_worker ''5'' None))
   \<and> sync_worker scripted_client 7 {} (mk_worker ''5'' None) (initial_state 0)
       = \<lparr>created_count = 0, skipped_count = 1, error_count = 0, client_state = 0,
          trace = [Print (NoWorkEmail [])]\<rparr>
   \<and> sync_loop scripted_client 7 {} [mk_worker ''5'' None, mk_employee ''4'' None ''down@x.com'']
         (initial_state 0)
       = \<lparr>created_count = 0, skipped_count = 1, error_count = 1, client_state = 0,
          trace = [Print (NoWorkEmail []),
                   Print (Creating [] ''down@x.com''),
                   CallCreateUser \<lparr>first_name = ''Unknown'', last_name = ''User'',
                      email = ''down@x.com'', login = ''down@x.com'',
                      password = ''Testpassword1''\<rparr>,
                   Print (ErrorCreating (ClientError ''unavailable''))]\<rparr>"
proof -
  let ?w = "mk_worker ''5'' None"
  let ?v = "mk_employee ''4'' None ''down@x.com''"
  let ?s = "initial_state (0::nat)"
  let ?s1 = "\<lparr>created_count = 0, skipped_count = 1, error_count = 0, client_state = 0::nat,
          trace = [Print (NoWorkEmail [])]\<rparr>"
  have h: "''work'' \<notin> fst ` set (contact_emails ?w)"
    by (simp add: mk_worker_def)
  note th = no_work_email_skipped [of ?w scripted_client 7 "{}" ?s "[?v]"]
  from th h have "get_work_email ?w = None" by blast
  then have g: "\<not> truthy (get_work_email ?w)" by simp
  have s1: "?s\<lparr>skipped_count := skipped_count ?s + 1,
               trace := trace ?s @ [Print (NoWorkEmail (worker_full_name ?w))]\<rparr> = ?s1"
    by (simp add: initial_state_def mk_worker_def worker_full_name_def)
  from th g have "sync_worker scripted_client 7 {} ?w ?s
       = ?s\<lparr>skipped_count := skipped_count ?s + 1,
               trace := trace ?s @ [Print (NoWorkEmail (worker_full_name ?w))]\<rparr>"
    by blast
  with s1 have 1: "sync_worker scripted_client 7 {} ?w ?s = ?s1" by (simp only:)
  from th g have "sync_loop scripted_client 7 {} [?w, ?v] ?s
       = sync_loop scripted_client 7 {} [?v]
           (?s\<lparr>skipped_count := skipped_count ?s + 1,
               trace := trace ?s @ [Print (NoWorkEmail (worker_full_name ?w))]\<rparr>)"
    by blast
  with s1 have "sync_loop scripted_client 7 {} [?w, ?v] ?s
       = sync_loop scripted_client 7 {} [?v] ?s1"
    by (simp only:)
  also have "\<dots> = sync_loop scripted_client 7 {} [] (sync_worker scripted_client 7 {} ?v ?s1)"
    by (rule sync_loop_Cons)
  also from no_work_email_skipped [of ?w scripted_client 7 "{}" "sync_worker scripted_client 7 {} ?v ?s1"]
  have "\<dots> = sync_worker scripted_client 7 {} ?v ?s1" by blast
  also have "\<dots> = \<lparr>created_count = 0, skipped_count = 1, error_count = 1, client_state = 0,
          trace = [Print (NoWorkEmail []),
                   Print (Creating [] ''down@x.com''),
                   CallCreateUser \<lparr>first_name = ''Unknown'', last_name = ''User'',
                      email = ''down@x.com'', login = ''down@x.com'',
                      password = ''Testpassword1''\<rparr>,
                   Print (ErrorCreating (ClientError ''unavailable''))]\<rparr>"
    by (simp add: sync_worker_def try_create_def Let_def py_strip_def py_lower_def example_simps)
  finally have 2: "sync_loop scripted_client 7 {} [?w, ?v] ?s
       = \<lparr>created_count = 0, skipped_count = 1, error_count = 1, client_state = 0,
          trace = [Print (NoWorkEmail []),
                   Print (Creating [] ''down@x.com''),
                   CallCreateUser \<lparr>first_name = ''Unknown'', last_name = ''User'',
                      email = ''down@x.com'', login = ''down@x.com'',
                      password = ''Testpassword1''\<rparr>,
                   Print (ErrorCreating (ClientError ''unavailable''))]\<rparr>" .
  from h g 1 2 show ?thesis by (intro conjI)
qed

text \<open>
  \<^bold>\<open>Claim C5\<close>. When the creation call raises for a worker, the loop goes on with the
  next worker from a state in which the error counter is one higher and the other counters
  are unchanged; the trace shows the call and the printed error. The loop is a total
  function into states: every raise is a branch of the model, and none of them leaves the
  loop.
\<close>

theorem creation_error_counted:
  assumes "needs_account existing w"
    and "create_user client (creation_args w (the (get_work_email w))) (client_state s) = (Inl e, c)"
  shows "sync_loop client course existing (w # rest) s =
           sync_loop client course existing rest
             (s\<lparr>error_count := error_count s + 1, client_state := c,
                trace := trace s @
                  [Print (Creating (worker_full_name w) (the (get_work_email w))),
                   CallCreateUser (creation_args w (the (get_work_email w))),
                   Print (ErrorCreating e)]\<rparr>)"
  using assms by (simp add: sync_loop_Cons sync_worker_create try_create_raises)

theorem creation_error_counted_witness:
  "needs_account {} (mk_employee ''4'' None ''down@x.com'')
   \<and> sync_loop scripted_client 7 {}
         [mk_employee ''4'' None ''down@x.com'', mk_worker ''5'' None] (initial_state 0)
       = \<lparr>created_count = 0, skipped_count = 1, error_count = 1, client_state = 0,
          trace = [Print (Creating [] ''down@x.com''),
                   CallCreateUser \<lparr>first_name = ''Unknown'', last_name = ''User'',
                      email = ''down@x.com'', login = ''down@x.com'',
                      password = ''Testpassword1''\<rparr>,
                   Print (ErrorCreating (ClientError ''unavailable'')),
                   Print (NoWorkEmail [])]\<rparr>"
proof -
  let ?w = "mk_employee ''4'' None ''down@x.com''"
  have n: "needs_account {} ?w" by (simp add: example_simps)
  have c: "create_user scripted_client (creation_args ?w (the (get_work_email ?w)))
      (client_state (initial_state 0)) = (Inl (ClientError ''unavailable''), 0)"
    by (simp add: example_simps)
  have "\<not> truthy (get_work_email (mk_worker ''5'' None))" by (simp add: example_simps)
  with creation_error_counted [OF n c, of 7 "[mk_worker ''5'' None]"] n
  show ?thesis
    by (simp add: sync_loop_Cons sync_loop_Nil sync_worker_no_email) (simp add: example_simps)
qed

text \<open>
  \<^bold>\<open>Claim C6\<close>. When the creation call succeeds for a worker, the worker is counted as
  created, and neither as skipped nor as an error, whatever the enrollment does, and the
  iteration issues the one creation call and no other. When the enrollment call raises, the
  loop goes on with the next worker from the state that shows the creation counted, the
  enrollment call and the printed failure.
\<close>

theorem creation_kept_when_enrollment_fails:
  assumes "needs_account existing w"
    and "create_user client (creation_args w (the (get_work_email w))) (client_state s)
           = (Inr created, c1)"
  shows "created_count (sync_worker client course existing w s) = created_count s + 1
       \<and> skipped_count (sync_worker client course existing w s) = skipped_count s
       \<and> error_count (sync_worker client course existing w s) = error_count s
       \<and> create_calls (step_events client course existing w s)
           = [creation_args w (the (get_work_email w))]
       \<and> (truthy_value (dict_get created ''id'') \<and> py_int (dict_get created ''id'') = Inr n
            \<and> add_user_to_course client n course c1 = (Inl e, c2) \<longrightarrow>
          sync_loop client course existing (w # rest) s =
            sync_loop client course existing rest
              (s\<lparr>created_count := created_count s + 1, client_state := c2,
                 trace := trace s @
                   [Print (Creating (worker_full_name w) (the (get_work_email w))),
                    CallCreateUser (creation_args w (the (get_work_email w))),
                    Print (CreatedUserId (dict_get created ''id'')),
                    CallAddUserToCourse n course,
                    Print (EnrollmentFailed e)]\<rparr>))"
proof -
  have counts: "created_count (sync_worker client course existing w s) = created_count s + 1"
    "skipped_count (sync_worker client course existing w s) = skipped_count s"
    "error_count (sync_worker client course existing w s) = error_count s"
    using assms by (simp_all add: sync_worker_create try_create_ok)
  from sync_worker_trace [of client course existing w s] assms(1)
  have calls: "create_calls (step_events client course existing w s)
      = [creation_args w (the (get_work_email w))]"
    by (auto simp: step_events_def)
  have "sync_worker client course existing w s =
      s\<lparr>created_count := created_count s + 1, client_state := c2,
                trace := trace s @
                  [Print (Creating (worker_full_name w) (the (get_work_email w))),
                   CallCreateUser (creation_args w (the (get_work_email w))),
                   Print (CreatedUserId (dict_get created ''id'')),
                   CallAddUserToCourse n course,
                   Print (EnrollmentFailed e)]\<rparr>"
    if "truthy_value (dict_get created ''id'') \<and> py_int (dict_get created ''id'') = Inr n
            \<and> add_user_to_course client n course c1 = (Inl e, c2)"
    using assms that
    by (cases s) (simp add: sync_worker_create try_create_ok try_enroll_raises)
  then have "truthy_value (dict_get created ''id'') \<and> py_int (dict_get created ''id'') = Inr n
            \<and> add_user_to_course client n course c1 = (Inl e, c2) \<longrightarrow>
          sync_loop client course existing (w # rest) s =
            sync_loop client course existing rest
              (s\<lparr>created_count := created_count s + 1, client_state := c2,
                 trace := trace s @
                   [Print (Creating (worker_full_name w) (the (get_work_email w))),
                    CallCreateUser (creation_args w (the (get_work_email w))),
                    Print (CreatedUserId (dict_get created ''id'')),
                    CallAddUserToCourse n course,
                    Print (EnrollmentFailed e)]\<rparr>)"
    by (simp only: sync_loop_Cons) simp
  with counts calls show ?thesis by blast
qed

theorem creation_kept_when_enrollment_fails_witness:
  "needs_account {} (mk_employee ''6'' None ''new@x.com'')
   \<and> sync_loop scripted_client 7 {} [mk_employee ''6'' None ''new@x.com''] (initial_state 0)
       = \<lparr>created_count = 1, skipped_count = 0, error_count = 0, client_state = 1,
          trace = [Print (Creating [] ''new@x.com''),
                   CallCreateUser \<lparr>first_name = ''Unknown'', last_name = ''User'',
                      email = ''new@x.com'', login = ''new@x.com'',
                      password = ''Testpassword1''\<rparr>,
                   Print (CreatedUserId (PyInt 1)),
                   CallAddUserToCourse 1 7,
                   Print (EnrollmentFailed (ClientError ''course closed''))]\<rparr>"
proof -
  let ?w = "mk_employee ''6'' None ''new@x.com''"
  let ?s = "initial_state (0::nat)"
  have n: "needs_account {} ?w" by (simp add: example_simps)
  have c: "create_user scripted_client (creation_args ?w (the (get_work_email ?w)))
      (client_state ?s) = (Inr [(''id'', PyInt 1)], 1)"
    by (simp add: example_simps)
  have t: "truthy_value (dict_get [(''id'', PyInt 1)] ''id'')
      \<and> py_int (dict_get [(''id'', PyInt 1)] ''id'') = Inr 1
      \<and> add_user_to_course scripted_client 1 7 1 = (Inl (ClientError ''course closed''), 1)"
    by (simp add: dict_get_def scripted_client_def)
  from creation_kept_when_enrollment_fails [OF n c, where course = 7 and n = 1
      and e = "ClientError ''course closed''" and ?c2.0 = 1 and rest = "[]"] t
  have "sync_loop scripted_client 7 {} [?w] ?s =
      sync_loop scripted_client 7 {} []
        (?s\<lparr>created_count := created_count ?s + 1, client_state := 1,
            trace := trace ?s @
              [Print (Creating (worker_full_name ?w) (the (get_work_email ?w))),
               CallCreateUser (creation_args ?w (the (get_work_email ?w))),
               Print (CreatedUserId (dict_get [(''id'', PyInt 1)] ''id'')),
               CallAddUserToCourse 1 7,
               Print (EnrollmentFailed (ClientError ''course closed''))]\<rparr>)"
    by blast
  with n show ?thesis
    by (simp add: sync_loop_Nil dict_get_def) (simp add: example_simps)
qed

text \<open>
  \<^bold>\<open>Claim C7\<close> (as amended). From the point where both directories are fetched, the run
  always ends, with exit code 1 or 0. The exit code is 1 exactly when a truthy manager
  filter is given and
  \<^item> no worker matches it, or
  \<^item> the matched worker has neither \<^verbatim>\<open>associateOID\<close> nor \<^verbatim>\<open>workerID\<close>, or
  \<^item> the hierarchy under the matched worker is too deep for the nested calls that the
    interpreter allows the collector, as it is on every cycle: the collector raises
    \<^verbatim>\<open>RecursionError\<close>, which nothing catches.
  In every other run the exit code is 0, also when there is no active worker to
  synchronise; then nothing is reconciled.
\<close>

theorem exit_code_cases:
  "(fst (main find_worker limit course client c0 users workers manager) = 1 \<longleftrightarrow>
      truthy manager \<and>
      (find_worker workers (the manager) = None
       \<or> (\<exists>m. find_worker workers (the manager) = Some m
             \<and> (\<not> truthy (worker_ident m) \<or> too_deep workers limit (the (worker_ident m))))))
   \<and> (fst (main find_worker limit course client c0 users workers manager) = 1
       \<or> fst (main find_worker limit course client c0 users workers manager) = 0)
   \<and> (get_active_adp_workers find_worker limit workers manager = Returned [] \<longrightarrow>
         main find_worker limit course client c0 users workers manager = (0, None))"
proof -
  have deep: "(\<exists>e. get_all_reports_under_manager limit workers k = Inl e)
      \<longleftrightarrow> too_deep workers limit k" for k
    using collector_returns_iff [of limit workers k]
    by (cases "get_all_reports_under_manager limit workers k") auto
  have code: "fst (main find_worker limit course client c0 users workers manager) =
      (if truthy manager \<and>
          (find_worker workers (the manager) = None
           \<or> (\<exists>m. find_worker workers (the manager) = Some m
                 \<and> (\<not> truthy (worker_ident m) \<or> too_deep workers limit (the (worker_ident m)))))
       then 1 else 0)"
  proof (cases "truthy manager")
    case False
    then show ?thesis by (simp add: main_def get_active_adp_workers_def Let_def)
  next
    case True
    show ?thesis
    proof (cases "find_worker workers (the manager)")
      case None
      with True show ?thesis by (simp add: main_def get_active_adp_workers_def Let_def)
    next
      case (Some m)
      show ?thesis
      proof (cases "truthy (worker_ident m)")
        case False
        with True Some show ?thesis by (simp add: main_def get_active_adp_workers_def Let_def)
      next
        case id: True
        show ?thesis
        proof (cases "get_all_reports_under_manager limit workers (the (worker_ident m))")
          case (Inl e)
          with deep [of "the (worker_ident m)"] have "too_deep workers limit (the (worker_ident m))"
            by blast
          with True Some id Inl show ?thesis
            by (simp add: main_def get_active_adp_workers_def Let_def)
        next
          case (Inr rs)
          with deep [of "the (worker_ident m)"] have "\<not> too_deep workers limit (the (worker_ident m))"
            by auto
          with True Some id Inr show ?thesis
            by (simp add: main_def get_active_adp_workers_def Let_def)
        qed
      qed
    qed
  qed
  have "get_active_adp_workers find_worker limit workers manager = Returned [] \<longrightarrow>
      main find_worker limit course client c0 users workers manager = (0, None)"
    by (simp add: main_def Let_def)
  with code show ?thesis by (simp split: if_splits)
qed

text \<open>
  Instances: a filter that matches no worker of the scenario ends the run with exit code
  1; a run over an empty directory without filter ends with exit code 0 and reconciles
  nothing; the filter for manager 1 of the scenario ends with exit code 0.
\<close>

theorem exit_code_cases_witness:
  "find_by_id_or_email scenario_workers ''9'' = None
   \<and> fst (main find_by_id_or_email 900 7 scripted_client 0 [] scenario_workers (Some ''9'')) = 1
   \<and> main find_by_id_or_email 900 7 scripted_client 0 [] [] None = (0, None)
   \<and> find_by_id_or_email scenario_workers ''1'' = Some (mk_worker ''1'' None)
   \<and> \<not> too_deep scenario_workers 900 ''1''
   \<and> fst (main find_by_id_or_email 900 7 scripted_client 0 [] scenario_workers (Some ''1'')) = 0"
proof -
  have f: "find_by_id_or_email scenario_workers (the (Some ''9'')) = None"
    by (simp add: find_by_id_or_email_def scenario_workers_def example_simps)
  note th = exit_code_cases
    [of find_by_id_or_email 900 7 scripted_client "0::nat" "[]" scenario_workers "Some ''9''"]
  from th f have 1: "fst (main find_by_id_or_email 900 7 scripted_client (0::nat) []
      scenario_workers (Some ''9'')) = 1"
    by simp
  have e: "get_active_adp_workers find_by_id_or_email 900 [] None = Returned []"
    by (simp add: get_active_adp_workers_def)
  from exit_code_cases [of find_by_id_or_email 900 7 scripted_client "0::nat" "[]" "[]" None] e
  have 2: "main find_by_id_or_email 900 7 scripted_client (0::nat) [] [] None = (0, None)"
    by blast
  have g: "find_by_id_or_email scenario_workers (the (Some ''1'')) = Some (mk_worker ''1'' None)"
    by (simp add: find_by_id_or_email_def scenario_workers_def example_simps)
  have i: "the (worker_ident (mk_worker ''1'' None)) = ''1''" "truthy (worker_ident (mk_worker ''1'' None))"
    by (simp_all add: example_simps)
  note th' = exit_code_cases
    [of find_by_id_or_email 900 7 scripted_client "0::nat" "[]" scenario_workers "Some ''1''"]
  from th' g i scenario_not_too_deep
  have 3: "fst (main find_by_id_or_email 900 7 scripted_client (0::nat) [] scenario_workers
      (Some ''1'')) = 0"
    by auto
  from f g 1 2 3 scenario_not_too_deep show ?thesis by simp
qed

text \<open>
  The exit code is also 1 when the filter does resolve to a worker record. In the first
  run the filter is the work e-mail of a record that has no identifier. In the second
  the filter is the identifier of a worker on a cycle: the collector raises
  \<^verbatim>\<open>RecursionError\<close> whatever the number of nested calls allowed, here 900.
\<close>

theorem manager_without_id_counterexample:
  "main find_by_id_or_email 900 7 scripted_client 0 [] [no_id_manager] (Some ''boss@x.com'')
     = (1, None)
   \<and> find_by_id_or_email [no_id_manager] ''boss@x.com'' = Some no_id_manager
   \<and> main find_by_id_or_email 900 7 scripted_client 0 [] cycle_workers (Some ''a'')
     = (1, None)
   \<and> find_by_id_or_email cycle_workers ''a'' = Some (mk_worker ''a'' (Some ''b''))
   \<and> worker_ident (mk_worker ''a'' (Some ''b'')) = Some ''a''
   \<and> get_all_reports_under_manager 900 cycle_workers ''a'' = Inl RecursionError"
proof -
  have f: "find_by_id_or_email [no_id_manager] ''boss@x.com'' = Some no_id_manager"
    by (simp add: find_by_id_or_email_def no_id_manager_def example_simps)
  have "worker_ident no_id_manager = None"
    by (simp add: no_id_manager_def example_simps)
  with f have 1: "main find_by_id_or_email 900 7 scripted_client 0 [] [no_id_manager]
      (Some ''boss@x.com'') = (1, None)"
    by (simp add: main_def get_active_adp_workers_def)
  have g: "find_by_id_or_email cycle_workers ''a'' = Some (mk_worker ''a'' (Some ''b''))"
    by (simp add: find_by_id_or_email_def cycle_workers_def example_simps)
  have i: "worker_ident (mk_worker ''a'' (Some ''b'')) = Some ''a''"
    by (simp add: example_simps)
  from collector_raises_on_cycle [of 900]
  have r: "get_all_reports_under_manager 900 cycle_workers ''a'' = Inl RecursionError"
    by simp
  from g i r have 2: "main find_by_id_or_email 900 7 scripted_client 0 [] cycle_workers
      (Some ''a'') = (1, None)"
    by (simp add: main_def get_active_adp_workers_def)
  from f 1 g i r 2 show ?thesis by simp
qed

text \<open>
  \<^bold>\<open>Claim C8\<close>. After the reconciliation the three counters add up to the length of the
  worker list, and each iteration raises exactly one of them by one.
\<close>

theorem counters_partition_workers:
  "created_count (sync_workers_to_talentlms course workers existing client c0)
     + skipped_count (sync_workers_to_talentlms course workers existing client c0)
     + error_count (sync_workers_to_talentlms course workers existing client c0)
   = int (length workers)
   \<and> counted_once s (sync_worker client course existing w s)"
proof -
  have "created_count (sync_workers_to_talentlms course workers existing client c0)
     + skipped_count (sync_workers_to_talentlms course workers existing client c0)
     + error_count (sync_workers_to_talentlms course workers existing client c0)
   = int (length workers)"
    using sync_loop_count [of client course existing workers "initial_state c0"]
    by (simp add: sync_workers_to_talentlms_unfold Let_def initial_state_def)
  then show ?thesis using sync_worker_counted_once by blast
qed

theorem counters_partition_workers_witness:
  "created_count (sync_workers_to_talentlms 7
       [mk_employee ''4'' None ''down@x.com'', mk_worker ''5'' None,
        mk_employee ''6'' None ''new@x.com''] {} scripted_client 0)
   + skipped_count (sync_workers_to_talentlms 7
       [mk_employee ''4'' None ''down@x.com'', mk_worker ''5'' None,
        mk_employee ''6'' None ''new@x.com''] {} scripted_client 0)
   + error_count (sync_workers_to_talentlms 7
       [mk_employee ''4'' None ''down@x.com'', mk_worker ''5'' None,
        mk_employee ''6'' None ''new@x.com''] {} scripted_client 0)
   = 3"
  using counters_partition_workers [of 7
       "[mk_employee ''4'' None ''down@x.com'', mk_worker ''5'' None,
        mk_employee ''6'' None ''new@x.com'']" "{}" scripted_client 0]
  by simp

text \<open>
  \<^bold>\<open>Claim C9\<close>. The set of existing e-mails and the worker list are values that the loop
  reads and never replaces: every iteration tests against the set the run started with. So
  the creation calls of a run are, in order, one for each worker of the list that has a
  truthy work e-mail whose stripped, lower-cased form is not in that set; two workers with
  the same such e-mail get a call each.
\<close>

theorem creation_calls_from_initial_set:
  "create_calls (trace (sync_workers_to_talentlms course workers existing client c0)) =
     map (\<lambda>w. creation_args w (the (get_work_email w))) (filter (needs_account existing) workers)"
  using sync_loop_create_calls [of client course existing workers "initial_state c0"]
  by (simp add: sync_workers_to_talentlms_unfold Let_def initial_state_def)

theorem creation_calls_from_initial_set_witness:
  "create_calls (trace (sync_workers_to_talentlms 7
       [mk_employee ''7'' None ''Dup@x.com'', mk_employee ''8'' None ''dup@x.com '']
       {} scripted_client 0))
   = [\<lparr>first_name = ''Unknown'', last_name = ''User'', email = ''Dup@x.com'',
       login = ''Dup@x.com'', password = ''Testpassword1''\<rparr>,
      \<lparr>first_name = ''Unknown'', last_name = ''User'', email = ''dup@x.com '',
       login = ''dup@x.com '', password = ''Testpassword1''\<rparr>]
   \<and> py_lower (py_strip ''Dup@x.com'') = py_lower (py_strip ''dup@x.com '')"
proof -
  have "py_lower (py_strip ''Dup@x.com'') = py_lower (py_strip ''dup@x.com '')"
    by code_simp
  then show ?thesis
    using creation_calls_from_initial_set [of 7
       "[mk_employee ''7'' None ''Dup@x.com'', mk_employee ''8'' None ''dup@x.com '']"
       "{}" scripted_client 0]
    by (simp add: example_simps)
qed

text \<open>
  \<^bold>\<open>Claim C10\<close> (as amended). An iteration issues an enrollment call exactly when the
  loop reaches the creation call, the creation call succeeds, the id of the response is
  truthy and \<^verbatim>\<open>int\<close> converts it; the call is then the one call for the converted id
  and the onboarding course. When the creation succeeds and the response has no truthy
  id, nothing is attempted or printed for the enrollment and the creation is counted. When
  the id is truthy and \<^verbatim>\<open>int\<close> raises, the call is not issued, the failure is printed and
  the creation is counted.
\<close>

theorem enrollment_call_iff:
  "(enroll_calls (step_events client course existing w s) \<noteq> [] \<longleftrightarrow>
      needs_account existing w \<and>
      (\<exists>created c n.
          create_user client (creation_args w (the (get_work_email w))) (client_state s)
            = (Inr created, c)
          \<and> truthy_value (dict_get created ''id'')
          \<and> py_int (dict_get created ''id'') = Inr n))
   \<and> (needs_account existing w \<and>
       create_user client (creation_args w (the (get_work_email w))) (client_state s)
         = (Inr d, c')
       \<and> truthy_value (dict_get d ''id'') \<and> py_int (dict_get d ''id'') = Inr n \<longrightarrow>
         enroll_calls (step_events client course existing w s) = [(n, course)])
   \<and> (needs_account existing w \<and>
       create_user client (creation_args w (the (get_work_email w))) (client_state s)
         = (Inr d, c')
       \<and> \<not> truthy_value (dict_get d ''id'') \<longrightarrow>
         sync_worker client course existing w s =
           s\<lparr>created_count := created_count s + 1, client_state := c',
             trace := trace s @
               [Print (Creating (worker_full_name w) (the (get_work_email w))),
                CallCreateUser (creation_args w (the (get_work_email w))),
                Print (CreatedUserId (dict_get d ''id''))]\<rparr>)
   \<and> (needs_account existing w \<and>
       create_user client (creation_args w (the (get_work_email w))) (client_state s)
         = (Inr d, c')
       \<and> truthy_value (dict_get d ''id'') \<and> py_int (dict_get d ''id'') = Inl e \<longrightarrow>
         sync_worker client course existing w s =
           s\<lparr>created_count := created_count s + 1, client_state := c',
             trace := trace s @
               [Print (Creating (worker_full_name w) (the (get_work_email w))),
                CallCreateUser (creation_args w (the (get_work_email w))),
                Print (CreatedUserId (dict_get d ''id'')),
                Print (EnrollmentFailed e)]\<rparr>)"
proof (intro conjI impI)
  show "enroll_calls (step_events client course existing w s) \<noteq> [] \<longleftrightarrow>
      needs_account existing w \<and>
      (\<exists>created c n.
          create_user client (creation_args w (the (get_work_email w))) (client_state s)
            = (Inr created, c)
          \<and> truthy_value (dict_get created ''id'')
          \<and> py_int (dict_get created ''id'') = Inr n)"
    unfolding step_enroll_calls
    by (auto split: prod.splits sum.splits if_splits)
next
  assume "needs_account existing w \<and>
       create_user client (creation_args w (the (get_work_email w))) (client_state s)
         = (Inr d, c')
       \<and> truthy_value (dict_get d ''id'') \<and> py_int (dict_get d ''id'') = Inr n"
  then show "enroll_calls (step_events client course existing w s) = [(n, course)]"
    by (simp add: step_enroll_calls)
next
  assume "needs_account existing w \<and>
       create_user client (creation_args w (the (get_work_email w))) (client_state s)
         = (Inr d, c')
       \<and> \<not> truthy_value (dict_get d ''id'')"
  then show "sync_worker client course existing w s =
           s\<lparr>created_count := created_count s + 1, client_state := c',
             trace := trace s @
               [Print (Creating (worker_full_name w) (the (get_work_email w))),
                CallCreateUser (creation_args w (the (get_work_email w))),
                Print (CreatedUserId (dict_get d ''id''))]\<rparr>"
    by (cases s) (simp add: sync_worker_create try_create_ok try_enroll_no_id)
next
  assume "needs_account existing w \<and>
       create_user client (creation_args w (the (get_work_email w))) (client_state s)
         = (Inr d, c')
       \<and> truthy_value (dict_get d ''id'') \<and> py_int (dict_get d ''id'') = Inl e"
  then show "sync_worker client course existing w s =
           s\<lparr>created_count := created_count s + 1, client_state := c',
             trace := trace s @
               [Print (Creating (worker_full_name w) (the (get_work_email w))),
                CallCreateUser (creation_args w (the (get_work_email w))),
                Print (CreatedUserId (dict_get d ''id'')),
                Print (EnrollmentFailed e)]\<rparr>"
    by (cases s) (simp add: sync_worker_create try_create_ok try_enroll_bad_id)
qed

text \<open>
  Instances: for a response with the id 1 the iteration issues the enrollment call for
  user 1 and course 7; for a response without id it issues none and counts the creation;
  for the id \<^verbatim>\<open>"abc"\<close> it issues none; and a worker who has an account gets none.
\<close>

theorem enrollment_call_iff_witness:
  "enroll_calls (step_events scripted_client 7 {} (mk_employee ''6'' None ''new@x.com'')
       (initial_state 0)) = [(1, 7)]
   \<and> sync_worker scripted_client 7 {} (mk_employee ''9'' None ''noid@x.com'') (initial_state 0)
       = \<lparr>created_count = 1, skipped_count = 0, error_count = 0, client_state = 1,
          trace = [Print (Creating [] ''noid@x.com''),
                   CallCreateUser \<lparr>first_name = ''Unknown'', last_name = ''User'',
                      email = ''noid@x.com'', login = ''noid@x.com'',
                      password = ''Testpassword1''\<rparr>,
                   Print (CreatedUserId PyNone)]\<rparr>
   \<and> enroll_calls (trace (sync_worker scripted_client 7 {}
         (mk_employee ''3'' None ''abc@x.com'') (initial_state 0))) = []
   \<and> enroll_calls (step_events scripted_client 7 {''new@x.com''}
         (mk_employee ''6'' None ''new@x.com'') (initial_state 0)) = []"
proof -
  let ?w = "mk_employee ''6'' None ''new@x.com''"
  let ?v = "mk_employee ''9'' None ''noid@x.com''"
  let ?u = "mk_employee ''3'' None ''abc@x.com''"
  let ?s = "initial_state (0::nat)"
  have n: "needs_account {} ?w" by (simp add: example_simps)
  have c: "create_user scripted_client (creation_args ?w (the (get_work_email ?w)))
      (client_state ?s) = (Inr [(''id'', PyInt 1)], 1)"
    by (simp add: example_simps)
  have t: "truthy_value (dict_get [(''id'', PyInt 1)] ''id'')"
    "py_int (dict_get [(''id'', PyInt 1)] ''id'') = Inr 1"
    by (simp_all add: dict_get_def)
  have n': "needs_account {} ?v" by (simp add: example_simps)
  have c': "create_user scripted_client (creation_args ?v (the (get_work_email ?v)))
      (client_state ?s) = (Inr [], 1)"
    by (simp add: example_simps)
  have t': "\<not> truthy_value (dict_get [] ''id'')" by (simp add: dict_get_def)
  have n'': "needs_account {} ?u" by (simp add: example_simps)
  have c'': "create_user scripted_client (creation_args ?u (the (get_work_email ?u)))
      (client_state ?s) = (Inr [(''id'', PyStr ''abc'')], 1)"
    by (simp add: example_simps)
  have t'': "truthy_value (dict_get [(''id'', PyStr ''abc'')] ''id'')"
    "py_int (dict_get [(''id'', PyStr ''abc'')] ''id'') = Inl (ValueError ''abc'')"
    by (simp_all add: dict_get_def int_of_string_abc)
  have l: "py_lower (py_strip ''new@x.com'') = ''new@x.com''" by code_simp
  have m: "\<not> needs_account {''new@x.com''} ?w"
    by (simp add: needs_account_def get_work_email_def mk_employee_def mk_worker_def l)
  note th = enrollment_call_iff
    [of scripted_client 7 "{}" ?w ?s "[(''id'', PyInt 1)]" 1 1 "ValueError []"]
  note th' = enrollment_call_iff
    [of scripted_client 7 "{}" ?v ?s "[]" 1 0 "ValueError []"]
  note th'' = enrollment_call_iff
    [of scripted_client 7 "{}" ?u ?s "[(''id'', PyStr ''abc'')]" 1 0 "ValueError ''abc''"]
  note th''' = enrollment_call_iff
    [of scripted_client 7 "{''new@x.com''}" ?w ?s "[]" 1 0 "ValueError []"]
  from th [THEN conjunct2, THEN conjunct1] n c t
  have 1: "enroll_calls (step_events scripted_client 7 {} ?w ?s) = [(1, 7)]"
    by blast
  from th' [THEN conjunct2, THEN conjunct2, THEN conjunct1] n' c' t'
  have "sync_worker scripted_client 7 {} ?v ?s =
      ?s\<lparr>created_count := created_count ?s + 1, client_state := 1,
         trace := trace ?s @
           [Print (Creating (worker_full_name ?v) (the (get_work_email ?v))),
            CallCreateUser (creation_args ?v (the (get_work_email ?v))),
            Print (CreatedUserId (dict_get [] ''id''))]\<rparr>"
    by blast
  then have 2: "sync_worker scripted_client 7 {} ?v ?s
       = \<lparr>created_count = 1, skipped_count = 0, error_count = 0, client_state = 1,
          trace = [Print (Creating [] ''noid@x.com''),
                   CallCreateUser \<lparr>first_name = ''Unknown'', last_name = ''User'',
                      email = ''noid@x.com'', login = ''noid@x.com'',
                      password = ''Testpassword1''\<rparr>,
                   Print (CreatedUserId PyNone)]\<rparr>"
    by (simp add: dict_get_def example_simps)
  from th'' [THEN conjunct2, THEN conjunct2, THEN conjunct2] n'' c'' t''
  have "sync_worker scripted_client 7 {} ?u ?s =
      ?s\<lparr>created_count := created_count ?s + 1, client_state := 1,
         trace := trace ?s @
           [Print (Creating (worker_full_name ?u) (the (get_work_email ?u))),
            CallCreateUser (creation_args ?u (the (get_work_email ?u))),
            Print (CreatedUserId (dict_get [(''id'', PyStr ''abc'')] ''id'')),
            Print (EnrollmentFailed (ValueError ''abc''))]\<rparr>"
    by blast
  then have 3: "enroll_calls (trace (sync_worker scripted_client 7 {} ?u ?s)) = []"
    by (simp add: initial_state_def)
  from th''' [THEN conjunct1] m
  have 4: "enroll_calls (step_events scripted_client 7 {''new@x.com''} ?w ?s) = []"
    by blast
  from 1 2 3 4 show ?thesis by blast
qed

text \<open>
  A truthy id is not enough: for the id \<^verbatim>\<open>"abc"\<close> the creation succeeds and is counted,
  and the trace of the iteration has no enrollment call.
\<close>

theorem non_numeric_id_counterexample:
  "create_user scripted_client
       (creation_args (mk_employee ''3'' None ''abc@x.com'') ''abc@x.com'') 0
     = (Inr [(''id'', PyStr ''abc'')], 1)
   \<and> truthy_value (dict_get [(''id'', PyStr ''abc'')] ''id'')
   \<and> sync_worker scripted_client 7 {} (mk_employee ''3'' None ''abc@x.com'') (initial_state 0)
       = \<lparr>created_count = 1, skipped_count = 0, error_count = 0, client_state = 1,
          trace = [Print (Creating [] ''abc@x.com''),
                   CallCreateUser \<lparr>first_name = ''Unknown'', last_name = ''User'',
                      email = ''abc@x.com'', login = ''abc@x.com'',
                      password = ''Testpassword1''\<rparr>,
                   Print (CreatedUserId (PyStr ''abc'')),
                   Print (EnrollmentFailed (ValueError ''abc''))]\<rparr>"
proof -
  let ?w = "mk_employee ''3'' None ''abc@x.com''"
  have n: "needs_account {} ?w" by (simp add: example_simps)
  have a: "the (get_work_email ?w) = ''abc@x.com''" by (simp add: example_simps)
  have c: "create_user scripted_client (creation_args ?w ''abc@x.com'') 0
      = (Inr [(''id'', PyStr ''abc'')], 1)"
    by (simp add: example_simps)
  have t: "truthy_value (dict_get [(''id'', PyStr ''abc'')] ''id'')" by (simp add: dict_get_def)
  have p: "py_int (dict_get [(''id'', PyStr ''abc'')] ''id'') = Inl (ValueError ''abc'')"
    by (simp add: dict_get_def int_of_string_abc)
  have "sync_worker scripted_client 7 {} ?w (initial_state 0)
      = (try_enroll scripted_client 7 (dict_get [(''id'', PyStr ''abc'')] ''id'')
          ((initial_state 0)\<lparr>client_state := 1,
             trace := trace (initial_state (0::nat)) @ [Print (Creating (worker_full_name ?w) ''abc@x.com''),
                                 CallCreateUser (creation_args ?w ''abc@x.com''),
                                 Print (CreatedUserId (dict_get [(''id'', PyStr ''abc'')] ''id''))]\<rparr>))
       \<lparr>created_count := created_count (initial_state (0::nat)) + 1\<rparr>"
    using n c by (simp add: sync_worker_create a try_create_ok initial_state_def)
  then have "sync_worker scripted_client 7 {} ?w (initial_state 0)
       = \<lparr>created_count = 1, skipped_count = 0, error_count = 0, client_state = 1,
          trace = [Print (Creating [] ''abc@x.com''),
                   CallCreateUser \<lparr>first_name = ''Unknown'', last_name = ''User'',
                      email = ''abc@x.com'', login = ''abc@x.com'',
                      password = ''Testpassword1''\<rparr>,
                   Print (CreatedUserId (PyStr ''abc'')),
                   Print (EnrollmentFailed (ValueError ''abc''))]\<rparr>"
    by (simp add: try_enroll_bad_id [OF t p]) (simp add: dict_get_def example_simps)
  with c t show ?thesis by blast
qed

end
